theory Spec2Isabelle
  imports Main
begin

section \<open>Data model of handlers/auction.py\<close>

text \<open>
  Python integers are unbounded, so every INTEGER column is an \<open>int\<close>. A timestamp is
  the value of \<open>datetime.now()\<close>, counted in microseconds; the ISO strings the handler
  stores order exactly as the instants they denote, so \<open>start_iso\<close>, \<open>end_iso\<close> and
  \<open>bid_iso\<close> hold that count. Every call of \<open>datetime.now()\<close> is a separate argument of
  the function that makes it.
\<close>

type_synonym user = int
type_synonym waifu = int
type_synonym instant = int

text \<open>The columns of a \<open>waifu_cards\<close> row that \<open>auction_handler\<close> copies into the auction.\<close>

record card =
  name :: string
  anime :: string
  rarity :: string
  media_type :: string
  media_file :: string
  media_file_id :: string

text \<open>Column \<open>status\<close> only ever holds \<open>'active'\<close> (the default) or \<open>'finished'\<close>.\<close>

datatype status = Active | Finished

text \<open>A row of table \<open>auctions\<close>; \<open>id'\<close> is column \<open>id\<close>, \<open>transferred\<close> holds 0 or 1.\<close>

record auction =
  id' :: int
  waifu_id :: waifu
  seller_id :: user
  start_iso :: instant
  end_iso :: instant
  min_price :: int
  status :: status
  winner_id :: "user option"
  final_price :: "int option"
  transferred :: bool
  snapshot :: card

text \<open>A row of table \<open>auction_bids\<close>; the list keeps the rows in insertion order.\<close>

record bid =
  auction_id :: int
  bidder_id :: user
  amount :: int
  bid_iso :: instant

text \<open>
  The database. \<open>user_waifus\<close> has the key \<open>(user_id, waifu_id)\<close> and the column
  \<open>amount\<close>; \<open>waifu_cards\<close> is keyed by card id.
\<close>

record db =
  auctions :: "auction list"
  auction_bids :: "bid list"
  user_waifus :: "user \<times> waifu \<rightharpoonup> int"
  waifu_cards :: "waifu \<rightharpoonup> card"
  crystals :: "user \<Rightarrow> int"

datatype error = OperationalError | OverflowError

text \<open>What a handler answers (the text of the reply, by its meaning).\<close>

datatype reply =
    NotOwned
  | CardNotFound
  | Started int
  | Raised error
  | AuctionNotFound
  | NotActive
  | AuctionEnded
  | NotEnoughCrystals
  | BidTooLow int
  | BidPlaced
  | NotFinished
  | NoWinner
  | NoFinalPrice
  | CardAdded
  | AlreadyTransferred
  | SellerCredited
  | AlreadyCredited

definition BID_TIMEOUT_SECONDS :: int where
  "BID_TIMEOUT_SECONDS = 10"

definition timedelta :: "int \<Rightarrow> int" where
  "timedelta seconds = seconds * 1000000"

section \<open>The wallet\<close>

text \<open>
  Modelled from the spec: module \<open>database\<close> (class \<open>Database\<close> with \<open>get_crystals\<close> and
  \<open>add_crystals\<close>) is not among the sources. The spec's wallet contract is
  \<open>Balance(user)\<close>, \<open>Credit(user, amount)\<close> and \<open>Debit(user, amount)\<close>, each atomic; the
  handler reads the balance as the \<open>total\<close> component of \<open>get_crystals\<close> and credits or
  debits with \<open>add_crystals(user, given=\<plusminus>amount)\<close>.
\<close>

definition get_crystals :: "db \<Rightarrow> user \<Rightarrow> int" where
  "get_crystals s u = crystals s u"

definition add_crystals :: "user \<Rightarrow> int \<Rightarrow> db \<Rightarrow> db" where
  "add_crystals u given s = s\<lparr>crystals := (crystals s)(u := crystals s u + given)\<rparr>"

section \<open>Queries\<close>

text \<open>\<open>SELECT ... FROM auctions WHERE id = ?\<close>, \<open>fetchone()\<close>.\<close>

definition fetch_auction :: "db \<Rightarrow> int \<Rightarrow> auction option" where
  "fetch_auction s k = find (\<lambda>a. id' a = k) (auctions s)"

text \<open>\<open>UPDATE auctions SET ... WHERE id = ?\<close>.\<close>

definition update_auction :: "int \<Rightarrow> (auction \<Rightarrow> auction) \<Rightarrow> db \<Rightarrow> db" where
  "update_auction k f s = s\<lparr>auctions := map (\<lambda>a. if id' a = k then f a else a) (auctions s)\<rparr>"

text \<open>
  \<open>SELECT bidder_id, amount FROM auction_bids WHERE auction_id = ?
  ORDER BY amount DESC, bid_iso ASC LIMIT 1\<close>: the highest amount, the earliest of equal
  amounts, and the first inserted of rows equal in both.
\<close>

fun better :: "bid option \<Rightarrow> bid \<Rightarrow> bid option" where
  "better None b = Some b"
| "better (Some t) b =
     (if amount t < amount b \<or> (amount b = amount t \<and> bid_iso b < bid_iso t)
      then Some b else Some t)"

definition top_bid :: "bid list \<Rightarrow> int \<Rightarrow> bid option" where
  "top_bid bs k = foldl better None (filter (\<lambda>b. auction_id b = k) bs)"

text \<open>
  \<open>SELECT amount FROM user_waifus ...\<close>, then \<open>UPDATE ... amount = amount + 1\<close> when the
  row exists and \<open>INSERT ... VALUES (?, ?, 1)\<close> when it does not.
\<close>

definition add_card :: "user \<Rightarrow> waifu \<Rightarrow> db \<Rightarrow> db" where
  "add_card u w s =
     (case user_waifus s (u, w) of
        Some n \<Rightarrow> s\<lparr>user_waifus := (user_waifus s)((u, w) \<mapsto> n + 1)\<rparr>
      | None \<Rightarrow> s\<lparr>user_waifus := (user_waifus s)((u, w) \<mapsto> 1)\<rparr>)"

section \<open>Settlement: \<open>finalize_expired_auctions\<close>\<close>

text \<open>
  \<open>SELECT transferred FROM auctions WHERE id = ?\<close>, \<open>fetchone()[0]\<close>. It is only read
  for an auction whose row was fetched just before, so the row is there.
\<close>

definition transferred_flag :: "db \<Rightarrow> int \<Rightarrow> bool" where
  "transferred_flag s k = (case fetch_auction s k of Some a \<Rightarrow> transferred a | None \<Rightarrow> False)"

text \<open>Lines 128-139: "Ensure winner has the card".\<close>

definition grant_winner :: "int \<Rightarrow> user \<Rightarrow> waifu \<Rightarrow> db \<Rightarrow> db" where
  "grant_winner k winner w s =
     (case user_waifus s (winner, w) of
        Some n \<Rightarrow>
          (if \<not> transferred_flag s k
           then s\<lparr>user_waifus := (user_waifus s)((winner, w) \<mapsto> n + 1)\<rparr>
           else s)
      | None \<Rightarrow> s\<lparr>user_waifus := (user_waifus s)((winner, w) \<mapsto> 1)\<rparr>)"

text \<open>Lines 141-147: "credit seller if not already credited".\<close>

definition credit_seller :: "int \<Rightarrow> user \<Rightarrow> int \<Rightarrow> db \<Rightarrow> db" where
  "credit_seller k seller price s =
     (if \<not> transferred_flag s k then add_crystals seller price s else s)"

text \<open>Lines 149-152: "mark auction finished and transferred".\<close>

definition mark_finished :: "int \<Rightarrow> user \<Rightarrow> int \<Rightarrow> db \<Rightarrow> db" where
  "mark_finished k winner price s =
     update_auction k
       (\<lambda>a. a\<lparr>status := Finished, winner_id := Some winner, final_price := Some price,
              transferred := True\<rparr>) s"

text \<open>The body of the loop over the selected auction ids (lines 89-159).\<close>

definition finalize_one :: "db \<Rightarrow> int \<Rightarrow> db" where
  "finalize_one s k =
     (let top_row = top_bid (auction_bids s) k in
      case fetch_auction s k of
        None \<Rightarrow> update_auction k (\<lambda>a. a\<lparr>status := Finished\<rparr>) s
      | Some arow \<Rightarrow>
          (case top_row of
             None \<Rightarrow>
               update_auction k (\<lambda>a. a\<lparr>status := Finished, transferred := True\<rparr>)
                 (add_card (seller_id arow) (waifu_id arow) s)
           | Some t \<Rightarrow>
               mark_finished k (bidder_id t) (amount t)
                 (credit_seller k (seller_id arow) (amount t)
                    (grant_winner k (bidder_id t) (waifu_id arow) s))))"

text \<open>
  \<open>SELECT id FROM auctions WHERE status = 'active' AND end_iso <= ?\<close> with \<open>now\<close> read
  once (line 86), then the loop over the fetched ids.
\<close>

definition expired_ids :: "instant \<Rightarrow> db \<Rightarrow> int list" where
  "expired_ids now s =
     map id' (filter (\<lambda>a. status a = Active \<and> end_iso a \<le> now) (auctions s))"

definition finalize_expired_auctions :: "instant \<Rightarrow> db \<Rightarrow> db" where
  "finalize_expired_auctions now s = foldl finalize_one s (expired_ids now s)"

text \<open>The wrapper swallows exceptions; the sweep above raises none.\<close>

definition finalize_expired_auctions_sync :: "instant \<Rightarrow> db \<Rightarrow> db" where
  "finalize_expired_auctions_sync now s = finalize_expired_auctions now s"

section \<open>Creating an auction: \<open>auction_handler\<close>\<close>

text \<open>
  SQLite's AUTOINCREMENT gives a new row an id above every id the table ever held; no row
  of \<open>auctions\<close> is ever deleted, so that is one more than the largest id present.
\<close>

definition next_id :: "auction list \<Rightarrow> int" where
  "next_id rows = foldr max (map id' rows) 0 + 1"

text \<open>
  The statement of line 208, as written in the source. SQLite parses a statement before it
  runs it, and a statement whose parentheses do not match is a syntax error
  (\<open>sqlite3.OperationalError\<close>), raised by \<open>execute\<close> with nothing written.
\<close>

definition rollback_sql :: string where
  "rollback_sql = ''INSERT OR REPLACE INTO user_waifus (user_id, waifu_id, amount) VALUES (?, ?, COALESCE((SELECT amount FROM user_waifus WHERE user_id=? AND waifu_id=?), 0)+1))''"

fun paren_depth :: "string \<Rightarrow> nat \<Rightarrow> nat option" where
  "paren_depth [] d = Some d"
| "paren_depth (c # cs) d =
     (if c = CHR ''('' then paren_depth cs (Suc d)
      else if c = CHR '')'' then (case d of 0 \<Rightarrow> None | Suc e \<Rightarrow> paren_depth cs e)
      else paren_depth cs d)"

definition parens_match :: "string \<Rightarrow> bool" where
  "parens_match q = (paren_depth q 0 = Some 0)"

text \<open>Lines 207-210: "rollback reserve (best-effort)".\<close>

definition rollback_reserve :: "user \<Rightarrow> waifu \<Rightarrow> db \<Rightarrow> error + db" where
  "rollback_reserve u w s =
     (if parens_match rollback_sql
      then Inr (s\<lparr>user_waifus := (user_waifus s)((u, w) \<mapsto>
                  (case user_waifus s (u, w) of Some n \<Rightarrow> n | None \<Rightarrow> 0) + 1)\<rparr>)
      else Inl OperationalError)"

text \<open>
  Python's \<open>sqlite3\<close> binds an \<open>int\<close> parameter as a 64-bit INTEGER and raises
  \<open>OverflowError\<close> from \<open>execute\<close>, with nothing written, when the value does not fit.
\<close>

definition sqlite_int :: "int \<Rightarrow> bool" where
  "sqlite_int n \<longleftrightarrow> - (2 ^ 63) \<le> n \<and> n < 2 ^ 63"

text \<open>
  Lines 188-224 of \<open>auction_handler\<close>, after the message is parsed: the ownership check
  (which binds the user and the card id, line 189), the reservation, the card snapshot and
  the insert (which binds the minimum price, line 218). \<open>now\<close> is the clock reading of
  line 216. An exception leaves the handler with what was committed before it: the
  reservation is committed at line 200.
\<close>

definition create_auction :: "instant \<Rightarrow> user \<Rightarrow> waifu \<Rightarrow> int \<Rightarrow> db \<Rightarrow> reply \<times> db" where
  "create_auction now user w price s =
     (if \<not> (sqlite_int user \<and> sqlite_int w) then (Raised OverflowError, s)
      else
        case user_waifus s (user, w) of
          None \<Rightarrow> (NotOwned, s)
        | Some n \<Rightarrow>
            if n \<le> 0 then (NotOwned, s)
            else
              let s1 = (if 1 < n
                        then s\<lparr>user_waifus := (user_waifus s)((user, w) \<mapsto> n - 1)\<rparr>
                        else s\<lparr>user_waifus := (user_waifus s)((user, w) := None)\<rparr>)
              in (case waifu_cards s1 w of
                    None \<Rightarrow>
                      (case rollback_reserve user w s1 of
                         Inl e \<Rightarrow> (Raised e, s1)
                       | Inr s2 \<Rightarrow> (CardNotFound, s2))
                  | Some c \<Rightarrow>
                      if \<not> sqlite_int price then (Raised OverflowError, s1)
                      else
                        let k = next_id (auctions s1);
                            row = \<lparr>id' = k, waifu_id = w, seller_id = user, start_iso = now,
                                   end_iso = now + timedelta BID_TIMEOUT_SECONDS,
                                   min_price = price, status = Active, winner_id = None,
                                   final_price = None, transferred = False, snapshot = c\<rparr>
                        in (Started k, s1\<lparr>auctions := auctions s1 @ [row]\<rparr>)))"

text \<open>The whole handler: the sweep of line 175 at its own clock reading, then the rest.\<close>

definition auction_handler ::
  "instant \<Rightarrow> instant \<Rightarrow> user \<Rightarrow> waifu \<Rightarrow> int \<Rightarrow> db \<Rightarrow> reply \<times> db" where
  "auction_handler t0 now user w price s =
     create_auction now user w price (finalize_expired_auctions_sync t0 s)"

section \<open>Bidding: \<open>bid_handler\<close>\<close>

text \<open>
  Lines 272-360 of \<open>bid_handler\<close>, after the message is parsed. The clock is read at
  line 282 (\<open>t_chk\<close>), inside the sweep of line 283 (\<open>t_fin\<close>), at line 317 (\<open>t_bid\<close>) and at
  line 341 (\<open>t_end\<close>). \<open>end_iso\<close> is always written by \<open>isoformat()\<close>, so \<open>iso_to_dt\<close> parses
  it.
\<close>

definition place_bid ::
  "instant \<Rightarrow> instant \<Rightarrow> instant \<Rightarrow> instant \<Rightarrow> user \<Rightarrow> int \<Rightarrow> int \<Rightarrow> db \<Rightarrow> reply \<times> db" where
  "place_bid t_chk t_fin t_bid t_end user_id k amt s =
     (case fetch_auction s k of
        None \<Rightarrow> (AuctionNotFound, s)
      | Some a \<Rightarrow>
          if status a \<noteq> Active then (NotActive, s)
          else if end_iso a \<le> t_chk then (AuctionEnded, finalize_expired_auctions_sync t_fin s)
          else
            let total = get_crystals s user_id;
                current = top_bid (auction_bids s) k;
                curr_amount = (case current of Some c \<Rightarrow> amount c | None \<Rightarrow> 0);
                curr_bidder = map_option bidder_id current;
                available = (if curr_bidder = Some user_id then total + curr_amount else total)
            in if available < amt then (NotEnoughCrystals, s)
               else if current \<noteq> None \<and> amt \<le> curr_amount then (BidTooLow curr_amount, s)
               else if current = None \<and> amt < min_price a then (BidTooLow (min_price a), s)
               else
                 let s1 = (if curr_bidder = Some user_id
                           then (let delta = amt - curr_amount
                                 in if 0 < delta then add_crystals user_id (- delta) s else s)
                           else (let s' = add_crystals user_id (- amt) s
                                 in case curr_bidder of
                                      Some prev \<Rightarrow>
                                        if prev \<noteq> 0 then add_crystals prev curr_amount s' else s'
                                    | None \<Rightarrow> s'));
                     s2 = s1\<lparr>auction_bids := auction_bids s1 @
                            [\<lparr>auction_id = k, bidder_id = user_id, amount = amt,
                              bid_iso = t_bid\<rparr>]\<rparr>
                 in (BidPlaced,
                     update_auction k
                       (\<lambda>a. a\<lparr>end_iso := t_end + timedelta BID_TIMEOUT_SECONDS\<rparr>) s2))"

text \<open>The whole handler: the sweep of line 258 at its own clock reading, then the rest.\<close>

definition bid_handler ::
  "instant \<Rightarrow> instant \<Rightarrow> instant \<Rightarrow> instant \<Rightarrow> instant \<Rightarrow> user \<Rightarrow> int \<Rightarrow> int \<Rightarrow> db
     \<Rightarrow> reply \<times> db" where
  "bid_handler t0 t_chk t_fin t_bid t_end user_id k amt s =
     place_bid t_chk t_fin t_bid t_end user_id k amt (finalize_expired_auctions_sync t0 s)"

section \<open>Manual recovery: \<open>auction_claim_cb\<close> and \<open>auction_credit_cb\<close>\<close>

text \<open>\<open>if not winner_id\<close> and \<open>if not final_price\<close> are false for \<open>None\<close> and for \<open>0\<close>.\<close>

definition auction_claim_cb :: "int \<Rightarrow> db \<Rightarrow> reply \<times> db" where
  "auction_claim_cb k s =
     (case fetch_auction s k of
        None \<Rightarrow> (AuctionNotFound, s)
      | Some row \<Rightarrow>
          if status row \<noteq> Finished then (NotFinished, s)
          else (case winner_id row of
                  None \<Rightarrow> (NoWinner, s)
                | Some winner \<Rightarrow>
                    if winner = 0 then (NoWinner, s)
                    else if \<not> transferred row
                    then (CardAdded,
                          update_auction k (\<lambda>a. a\<lparr>transferred := True\<rparr>)
                            (add_card winner (waifu_id row) s))
                    else (AlreadyTransferred, s)))"

definition auction_credit_cb :: "int \<Rightarrow> db \<Rightarrow> reply \<times> db" where
  "auction_credit_cb k s =
     (case fetch_auction s k of
        None \<Rightarrow> (AuctionNotFound, s)
      | Some row \<Rightarrow>
          if status row \<noteq> Finished then (NotFinished, s)
          else if transferred row then (AlreadyCredited, s)
          else (case final_price row of
                  None \<Rightarrow> (NoFinalPrice, s)
                | Some price \<Rightarrow>
                    if price = 0 then (NoFinalPrice, s)
                    else (SellerCredited,
                          update_auction k (\<lambda>a. a\<lparr>transferred := True\<rparr>)
                            (add_crystals (seller_id row) price s))))"

section \<open>Vocabulary of the properties\<close>

text \<open>The leading bid of an auction, as both handlers query it.\<close>

definition leading :: "db \<Rightarrow> int \<Rightarrow> bid option" where
  "leading s k = top_bid (auction_bids s) k"

text \<open>
  What \<open>bid_handler\<close> compares with the offered amount (lines 293-301): the balance,
  plus the bidder's own standing bid when the bidder leads.
\<close>

definition available_funds :: "db \<Rightarrow> user \<Rightarrow> int \<Rightarrow> int" where
  "available_funds s u k =
     (case leading s k of
        Some c \<Rightarrow> if bidder_id c = u then crystals s u + amount c else crystals s u
      | None \<Rightarrow> crystals s u)"

text \<open>The end time of the auction with id \<open>k\<close>, when there is one.\<close>

definition end_of :: "db \<Rightarrow> int \<Rightarrow> instant option" where
  "end_of s k = map_option end_iso (fetch_auction s k)"

text \<open>
  Every stored end time was written as a clock reading no later than \<open>t\<close> plus the
  timeout: true of a database whose auctions were created and bid on up to instant \<open>t\<close>.
\<close>

definition ends_within :: "instant \<Rightarrow> db \<Rightarrow> bool" where
  "ends_within t s =
     list_all (\<lambda>a. end_iso a \<le> t + timedelta BID_TIMEOUT_SECONDS) (auctions s)"

text \<open>
  How a sweep relates a row to the row it leaves: identity, end time, seller and card
  stay, finished and transferred stay set, and a row whose id is in \<open>K\<close> ends finished
  and transferred.
\<close>

definition settled_from :: "int set \<Rightarrow> auction \<Rightarrow> auction \<Rightarrow> bool" where
  "settled_from K a a' \<longleftrightarrow>
     id' a' = id' a \<and> end_iso a' = end_iso a \<and> seller_id a' = seller_id a \<and>
     waifu_id a' = waifu_id a \<and>
     (status a = Finished \<longrightarrow> status a' = Finished) \<and>
     (transferred a \<longrightarrow> transferred a') \<and>
     (id' a \<in> K \<longrightarrow> status a' = Finished \<and> transferred a')"

text \<open>The bidder of the leading bid.\<close>

definition leader :: "db \<Rightarrow> int \<Rightarrow> user option" where
  "leader s k = map_option bidder_id (leading s k)"

text \<open>
  The threshold of lines 306-312: above the leading bid when there is one, at least the
  minimum price otherwise; and the amount the rejection message states.
\<close>

definition bid_floor_met :: "db \<Rightarrow> auction \<Rightarrow> int \<Rightarrow> bool" where
  "bid_floor_met s a amt =
     (case leading s (id' a) of Some c \<Rightarrow> amount c < amt | None \<Rightarrow> min_price a \<le> amt)"

definition bid_floor :: "db \<Rightarrow> auction \<Rightarrow> int" where
  "bid_floor s a = (case leading s (id' a) of Some c \<Rightarrow> amount c | None \<Rightarrow> min_price a)"

text \<open>
  The wallet movement of lines 319-333 for a bid that passed the threshold check, so that
  the difference to the bidder's own standing bid is positive.
\<close>

definition pay_bid :: "user \<Rightarrow> int \<Rightarrow> int \<Rightarrow> db \<Rightarrow> db" where
  "pay_bid u k amt s =
     (case leading s k of
        None \<Rightarrow> add_crystals u (- amt) s
      | Some c \<Rightarrow>
          if bidder_id c = u then add_crystals u (- (amt - amount c)) s
          else if bidder_id c \<noteq> 0
               then add_crystals (bidder_id c) (amount c) (add_crystals u (- amt) s)
               else add_crystals u (- amt) s)"

text \<open>The amounts bid on auction \<open>k\<close>, in insertion order.\<close>

definition amounts_of :: "db \<Rightarrow> int \<Rightarrow> int list" where
  "amounts_of s k = map amount (filter (\<lambda>b. auction_id b = k) (auction_bids s))"

text \<open>
  The end time the spec's \<open>CreateAuction(sellerId, itemId, minPrice, duration)\<close> states:
  \<open>endTime = now + duration\<close>, with the duration in seconds.
\<close>

definition spec_endTime :: "instant \<Rightarrow> int \<Rightarrow> instant" where
  "spec_endTime now duration = now + timedelta duration"

subsection \<open>Sequences of engine operations\<close>

text \<open>
  The operations of the engine, each with the clock readings its handler takes (in the
  order the handler takes them) and its parsed arguments.
\<close>

datatype op =
    CreateAuction instant instant user waifu int
  | PlaceBid instant instant instant instant instant user int int
  | FinalizeExpired instant
  | ManualClaim int
  | ManualCredit int

fun apply_op :: "op \<Rightarrow> db \<Rightarrow> db" where
  "apply_op (CreateAuction t0 now u w p) s = snd (auction_handler t0 now u w p s)"
| "apply_op (PlaceBid t0 t_chk t_fin t_bid t_end u k amt) s =
     snd (bid_handler t0 t_chk t_fin t_bid t_end u k amt s)"
| "apply_op (FinalizeExpired now) s = finalize_expired_auctions now s"
| "apply_op (ManualClaim k) s = snd (auction_claim_cb k s)"
| "apply_op (ManualCredit k) s = snd (auction_credit_cb k s)"

fun run :: "op list \<Rightarrow> db \<Rightarrow> db" where
  "run [] s = s"
| "run (x # xs) s = run xs (apply_op x s)"

subsection \<open>Funds and items in the whole system\<close>

text \<open>
  The amount held against auction \<open>k\<close> is its leading bid, and only an active auction
  holds it; \<open>escrow\<close> adds these up, \<open>wallets\<close> adds the balances of the users in \<open>U\<close>.
\<close>

definition held :: "bid list \<Rightarrow> int \<Rightarrow> int" where
  "held bs k = (case top_bid bs k of Some c \<Rightarrow> amount c | None \<Rightarrow> 0)"

definition escrowed :: "bid list \<Rightarrow> auction \<Rightarrow> int" where
  "escrowed bs a = (if status a = Active then held bs (id' a) else 0)"

definition escrow :: "db \<Rightarrow> int" where
  "escrow s = sum_list (map (escrowed (auction_bids s)) (auctions s))"

definition wallets :: "user set \<Rightarrow> db \<Rightarrow> int" where
  "wallets U s = sum (crystals s) U"

definition total_funds :: "user set \<Rightarrow> db \<Rightarrow> int" where
  "total_funds U s = wallets U s + escrow s"

text \<open>
  A database the engine can have produced, with its users among the finite set \<open>U\<close>:
  auction ids are unique, sellers and bidders are in \<open>U\<close>, a row is finished exactly when
  it is transferred, every bid names an existing auction, and no bidder has id 0
  (Telegram user ids are positive; line 329 tests the previous bidder's id for truth).
\<close>

definition consistent :: "user set \<Rightarrow> db \<Rightarrow> bool" where
  "consistent U s \<longleftrightarrow>
     finite U \<and> distinct (map id' (auctions s)) \<and>
     list_all (\<lambda>a. seller_id a \<in> U \<and> (status a = Finished) = transferred a) (auctions s) \<and>
     list_all (\<lambda>b. bidder_id b \<in> U \<and> bidder_id b \<noteq> 0 \<and>
                   auction_id b \<in> id' ` set (auctions s)) (auction_bids s)"

text \<open>The user of an operation is in \<open>U\<close>, and a bidder's id is not 0.\<close>

fun known_user :: "user set \<Rightarrow> op \<Rightarrow> bool" where
  "known_user U (CreateAuction t0 now u w p) = (u \<in> U)"
| "known_user U (PlaceBid t0 t_chk t_fin t_bid t_end u k amt) = (u \<in> U \<and> u \<noteq> 0)"
| "known_user U (FinalizeExpired now) = True"
| "known_user U (ManualClaim k) = True"
| "known_user U (ManualCredit k) = True"

text \<open>Every clock reading of the operation is at or before instant \<open>t\<close>.\<close>

fun read_by :: "instant \<Rightarrow> op \<Rightarrow> bool" where
  "read_by t (CreateAuction t0 now u w p) = (t0 \<le> t \<and> now \<le> t)"
| "read_by t (PlaceBid t0 t_chk t_fin t_bid t_end u k amt) =
     (t0 \<le> t \<and> t_chk \<le> t \<and> t_fin \<le> t \<and> t_bid \<le> t \<and> t_end \<le> t)"
| "read_by t (FinalizeExpired now) = (now \<le> t)"
| "read_by t (ManualClaim k) = True"
| "read_by t (ManualCredit k) = True"

text \<open>
  The card an operation puts up for auction has a row in \<open>waifu_cards\<close>, and the minimum
  price fits SQLite's INTEGER.
\<close>

fun creatable :: "db \<Rightarrow> op \<Rightarrow> bool" where
  "creatable s (CreateAuction t0 now u w p) = (waifu_cards s w \<noteq> None \<and> sqlite_int p)"
| "creatable s (PlaceBid t0 t_chk t_fin t_bid t_end u k amt) = True"
| "creatable s (FinalizeExpired now) = True"
| "creatable s (ManualClaim k) = True"
| "creatable s (ManualCredit k) = True"

text \<open>
  The copies of card \<open>w\<close> in the system: those the users in \<open>U\<close> hold, and one in flight
  for each active auction of the card.
\<close>

definition units :: "db \<Rightarrow> waifu \<Rightarrow> user \<Rightarrow> int" where
  "units s w u = (case user_waifus s (u, w) of Some n \<Rightarrow> n | None \<Rightarrow> 0)"

definition in_flight_of :: "waifu \<Rightarrow> auction \<Rightarrow> int" where
  "in_flight_of w a = (if waifu_id a = w \<and> status a = Active then 1 else 0)"

definition in_flight :: "db \<Rightarrow> waifu \<Rightarrow> int" where
  "in_flight s w = sum_list (map (in_flight_of w) (auctions s))"

definition copies :: "user set \<Rightarrow> db \<Rightarrow> waifu \<Rightarrow> int" where
  "copies U s w = sum (units s w) U + in_flight s w"

subsection \<open>Sample databases\<close>

definition card7 :: card where
  "card7 = \<lparr>name = ''Alisa'', anime = ''Roshidere'', rarity = ''Rare'',
             media_type = ''photo'', media_file = ''alisa.jpg'', media_file_id = []\<rparr>"

text \<open>
  No auction yet. User 1 holds two copies of card 7; user 4 holds one copy of card 9, which
  has no row in \<open>waifu_cards\<close>; users 2 and 3 have 100 and 200 crystals.
\<close>

definition db_start :: db where
  "db_start =
     \<lparr>auctions = [], auction_bids = [],
      user_waifus = [(1, 7) \<mapsto> 2, (4, 9) \<mapsto> 1],
      waifu_cards = [7 \<mapsto> card7],
      crystals = (\<lambda>u. 0)(2 := 100, 3 := 200)\<rparr>"

text \<open>User 1 has opened auction 1 for card 7 at instant 0 with minimum price 50.\<close>

definition db_open :: db where
  "db_open =
     \<lparr>auctions = [\<lparr>id' = 1, waifu_id = 7, seller_id = 1, start_iso = 0,
                    end_iso = 10000000, min_price = 50, status = Active, winner_id = None,
                    final_price = None, transferred = False, snapshot = card7\<rparr>],
      auction_bids = [],
      user_waifus = [(1, 7) \<mapsto> 1, (4, 9) \<mapsto> 1],
      waifu_cards = [7 \<mapsto> card7],
      crystals = (\<lambda>u. 0)(2 := 100, 3 := 200)\<rparr>"

text \<open>User 2 has bid 60 on auction 1 at instant 1000000 (one second in).\<close>

definition db_led :: db where
  "db_led =
     \<lparr>auctions = [\<lparr>id' = 1, waifu_id = 7, seller_id = 1, start_iso = 0,
                    end_iso = 11000000, min_price = 50, status = Active, winner_id = None,
                    final_price = None, transferred = False, snapshot = card7\<rparr>],
      auction_bids = [\<lparr>auction_id = 1, bidder_id = 2, amount = 60, bid_iso = 1000000\<rparr>],
      user_waifus = [(1, 7) \<mapsto> 1, (4, 9) \<mapsto> 1],
      waifu_cards = [7 \<mapsto> card7],
      crystals = (\<lambda>u. 0)(2 := 40, 3 := 200)\<rparr>"

text \<open>
  A whole auction: user 1 opens it, users 2 and 3 bid 60 and 70, user 2 comes back with
  90, the sweep settles it, and both manual operations are pressed afterwards.
\<close>

definition sample_run :: "op list" where
  "sample_run =
     [CreateAuction 0 0 1 7 50,
      PlaceBid 1000000 1000000 1000000 1000000 1000000 2 1 60,
      PlaceBid 2000000 2000000 2000000 2000000 2000000 3 1 70,
      PlaceBid 3000000 3000000 3000000 3000000 3000000 2 1 90,
      FinalizeExpired 20000000,
      ManualClaim 1,
      ManualCredit 1]"

section \<open>Facts about the operations\<close>

lemma proj_add_crystals [simp]:
  "auctions (add_crystals u x s) = auctions s"
  "auction_bids (add_crystals u x s) = auction_bids s"
  "user_waifus (add_crystals u x s) = user_waifus s"
  "waifu_cards (add_crystals u x s) = waifu_cards s"
  "crystals (add_crystals u x s) = (crystals s)(u := crystals s u + x)"
  by (simp_all add: add_crystals_def)

lemma proj_add_card [simp]:
  "auctions (add_card u w s) = auctions s"
  "auction_bids (add_card u w s) = auction_bids s"
  "waifu_cards (add_card u w s) = waifu_cards s"
  "crystals (add_card u w s) = crystals s"
  by (simp_all add: add_card_def split: option.splits)

lemma proj_update_auction [simp]:
  "auctions (update_auction k f s) = map (\<lambda>a. if id' a = k then f a else a) (auctions s)"
  "auction_bids (update_auction k f s) = auction_bids s"
  "user_waifus (update_auction k f s) = user_waifus s"
  "waifu_cards (update_auction k f s) = waifu_cards s"
  "crystals (update_auction k f s) = crystals s"
  by (simp_all add: update_auction_def)

lemma flag_cong: "auctions s' = auctions s \<Longrightarrow> transferred_flag s' k = transferred_flag s k"
  by (simp add: transferred_flag_def fetch_auction_def)

lemma proj_grant_winner [simp]:
  "auctions (grant_winner k u w s) = auctions s"
  "auction_bids (grant_winner k u w s) = auction_bids s"
  "waifu_cards (grant_winner k u w s) = waifu_cards s"
  "crystals (grant_winner k u w s) = crystals s"
  by (simp_all add: grant_winner_def split: option.splits)

lemma proj_credit_seller [simp]:
  "auctions (credit_seller k u p s) = auctions s"
  "auction_bids (credit_seller k u p s) = auction_bids s"
  "user_waifus (credit_seller k u p s) = user_waifus s"
  "waifu_cards (credit_seller k u p s) = waifu_cards s"
  by (simp_all add: credit_seller_def)

lemma proj_mark_finished [simp]:
  "auctions (mark_finished k u p s) =
     map (\<lambda>a. if id' a = k
               then a\<lparr>status := Finished, winner_id := Some u, final_price := Some p,
                      transferred := True\<rparr>
               else a) (auctions s)"
  "auction_bids (mark_finished k u p s) = auction_bids s"
  "user_waifus (mark_finished k u p s) = user_waifus s"
  "waifu_cards (mark_finished k u p s) = waifu_cards s"
  "crystals (mark_finished k u p s) = crystals s"
  by (simp_all add: mark_finished_def)

lemma fetch_SomeD: "fetch_auction s k = Some a \<Longrightarrow> id' a = k \<and> a \<in> set (auctions s)"
  by (auto simp: fetch_auction_def find_Some_iff)

lemma fetch_None_iff: "fetch_auction s k = None \<longleftrightarrow> k \<notin> id' ` set (auctions s)"
  by (auto simp: fetch_auction_def find_None_iff)

lemma finalize_one_bids [simp]: "auction_bids (finalize_one s k) = auction_bids s"
  by (simp add: finalize_one_def Let_def split: option.splits)

lemma finalize_one_cards [simp]: "waifu_cards (finalize_one s k) = waifu_cards s"
  by (simp add: finalize_one_def Let_def split: option.splits)

lemma finalize_one_rows:
  "list_all2 (settled_from {k}) (auctions s) (auctions (finalize_one s k))"
proof (cases "fetch_auction s k")
  case None
  then have "\<forall>a\<in>set (auctions s). id' a \<noteq> k"
    by (auto simp: fetch_None_iff)
  then show ?thesis using None
    by (simp add: finalize_one_def list_all2_map2 list_all2_same settled_from_def)
next
  case (Some arow)
  then show ?thesis
    by (simp add: finalize_one_def Let_def list_all2_map2 list_all2_same settled_from_def
        split: option.splits)
qed

lemma settled_from_trans:
  "settled_from K a b \<Longrightarrow> settled_from L b c \<Longrightarrow> settled_from (K \<union> L) a c"
  by (auto simp: settled_from_def)

lemma foldl_finalize_bids [simp]: "auction_bids (foldl finalize_one s ks) = auction_bids s"
  by (induction ks arbitrary: s) simp_all

lemma foldl_finalize_cards [simp]: "waifu_cards (foldl finalize_one s ks) = waifu_cards s"
  by (induction ks arbitrary: s) simp_all

lemma foldl_finalize_rows:
  "list_all2 (settled_from (set ks)) (auctions s) (auctions (foldl finalize_one s ks))"
proof (induction ks arbitrary: s)
  case Nil
  show ?case by (simp add: list_all2_same settled_from_def)
next
  case (Cons k ks)
  have "list_all2 (settled_from ({k} \<union> set ks)) (auctions s)
          (auctions (foldl finalize_one (finalize_one s k) ks))"
    using finalize_one_rows [of k s] Cons.IH [of "finalize_one s k"]
    by (rule list_all2_trans [rotated]) (rule settled_from_trans)
  then show ?case by simp
qed

lemma sweep_rows:
  "list_all2 (settled_from (set (expired_ids now s))) (auctions s)
     (auctions (finalize_expired_auctions now s))"
  by (simp add: finalize_expired_auctions_def foldl_finalize_rows)

lemma sweep_bids [simp]: "auction_bids (finalize_expired_auctions now s) = auction_bids s"
  by (simp add: finalize_expired_auctions_def)

lemma find_rel:
  assumes "list_all2 R xs ys" and "\<And>a b. R a b \<Longrightarrow> id' b = id' a"
  shows "rel_option R (find (\<lambda>a. id' a = k) xs) (find (\<lambda>a. id' a = k) ys)"
  using assms(1) by (induction rule: list_all2_induct) (auto dest: assms(2))

lemma sweep_fetch:
  "rel_option (settled_from (set (expired_ids now s))) (fetch_auction s k)
     (fetch_auction (finalize_expired_auctions now s) k)"
  unfolding fetch_auction_def
  by (rule find_rel [OF sweep_rows]) (simp add: settled_from_def)

lemma rel_no_expired:
  assumes "list_all2 (settled_from K) xs ys"
    and "\<forall>a\<in>set xs. status a = Active \<and> end_iso a \<le> now \<longrightarrow> id' a \<in> K"
  shows "filter (\<lambda>a. status a = Active \<and> end_iso a \<le> now) ys = []"
  using assms
proof (induction rule: list_all2_induct)
  case Nil
  show ?case by simp
next
  case (Cons a as b bs)
  have "\<not> (status b = Active \<and> end_iso b \<le> now)"
    using Cons.hyps(1) Cons.prems by (cases "status a") (auto simp: settled_from_def)
  then show ?case using Cons by simp
qed

lemma rel_settled_not_selected:
  assumes "list_all2 (settled_from K) xs ys" and "k \<in> K"
  shows "k \<notin> id' ` set (filter (\<lambda>a. status a = Active \<and> end_iso a \<le> t) ys)"
  using assms(1)
proof (induction rule: list_all2_induct)
  case Nil
  show ?case by simp
next
  case (Cons a as b bs)
  then show ?case using assms(2) by (auto simp: settled_from_def)
qed

lemma settled_not_selected:
  "k \<in> set (expired_ids now s) \<Longrightarrow>
   k \<notin> set (expired_ids later (finalize_expired_auctions now s))"
  using rel_settled_not_selected [OF sweep_rows, of k now s later]
  by (simp add: expired_ids_def [of later])

lemma sweep_leaves_none_expired:
  "expired_ids now (finalize_expired_auctions now s) = []"
  unfolding expired_ids_def [of now "finalize_expired_auctions now s"]
  by (simp add: rel_no_expired [OF sweep_rows] expired_ids_def)

lemma sweep_twice:
  "finalize_expired_auctions now (finalize_expired_auctions now s) = finalize_expired_auctions now s"
  by (simp add: finalize_expired_auctions_def [of now "finalize_expired_auctions now s"]
      sweep_leaves_none_expired)

lemma swept_row:
  assumes "k \<in> set (expired_ids now s)"
  shows "\<exists>b. fetch_auction (finalize_expired_auctions now s) k = Some b \<and>
              status b = Finished \<and> transferred b"
proof -
  from assms obtain a where "fetch_auction s k = Some a"
    by (cases "fetch_auction s k") (auto simp: fetch_None_iff expired_ids_def)
  with sweep_fetch [of now s k] obtain b where
    "fetch_auction (finalize_expired_auctions now s) k = Some b"
    "settled_from (set (expired_ids now s)) a b"
    by (auto simp: option_rel_Some1)
  moreover have "id' a = k" using \<open>fetch_auction s k = Some a\<close> by (simp add: fetch_SomeD)
  ultimately show ?thesis using assms by (auto simp: settled_from_def)
qed

lemma claim_noop:
  assumes "fetch_auction s k = Some b" "status b = Finished \<longrightarrow> transferred b"
  shows "snd (auction_claim_cb k s) = s"
  using assms by (simp add: auction_claim_cb_def split: option.splits)

lemma credit_noop:
  assumes "fetch_auction s k = Some b" "status b = Finished \<longrightarrow> transferred b"
  shows "snd (auction_credit_cb k s) = s"
  using assms by (simp add: auction_credit_cb_def split: option.splits)

lemma find_update_same:
  "find (\<lambda>a. id' a = k) xs = Some a \<Longrightarrow> id' (f a) = k \<Longrightarrow>
   find (\<lambda>a. id' a = k) (map (\<lambda>a. if id' a = k then f a else a) xs) = Some (f a)"
  by (induction xs) (auto split: if_splits)

lemma claim_twice:
  "snd (auction_claim_cb k (snd (auction_claim_cb k s))) = snd (auction_claim_cb k s)"
proof (cases "fetch_auction s k")
  case None
  then show ?thesis by (simp add: auction_claim_cb_def)
next
  case (Some a)
  show ?thesis
  proof (cases "status a = Finished \<and> \<not> transferred a \<and> (\<exists>w. winner_id a = Some w \<and> w \<noteq> 0)")
    case False
    then have "snd (auction_claim_cb k s) = s" using Some
      by (auto simp: auction_claim_cb_def split: option.splits)
    then show ?thesis by simp
  next
    case True
    then obtain w where w: "winner_id a = Some w" "w \<noteq> 0" by blast
    let ?s1 = "update_auction k (\<lambda>a. a\<lparr>transferred := True\<rparr>) (add_card w (waifu_id a) s)"
    have s1: "snd (auction_claim_cb k s) = ?s1"
      using Some True w by (simp add: auction_claim_cb_def)
    have "fetch_auction ?s1 k = Some (a\<lparr>transferred := True\<rparr>)"
      using Some fetch_SomeD [OF Some]
      by (simp add: fetch_auction_def find_update_same)
    then have "snd (auction_claim_cb k ?s1) = ?s1"
      by (rule claim_noop) simp
    then show ?thesis by (simp add: s1)
  qed
qed

lemma credit_twice:
  "snd (auction_credit_cb k (snd (auction_credit_cb k s))) = snd (auction_credit_cb k s)"
proof (cases "fetch_auction s k")
  case None
  then show ?thesis by (simp add: auction_credit_cb_def)
next
  case (Some a)
  show ?thesis
  proof (cases "status a = Finished \<and> \<not> transferred a \<and> (\<exists>p. final_price a = Some p \<and> p \<noteq> 0)")
    case False
    then have "snd (auction_credit_cb k s) = s" using Some
      by (auto simp: auction_credit_cb_def split: option.splits)
    then show ?thesis by simp
  next
    case True
    then obtain p where p: "final_price a = Some p" "p \<noteq> 0" by blast
    let ?s1 = "update_auction k (\<lambda>a. a\<lparr>transferred := True\<rparr>) (add_crystals (seller_id a) p s)"
    have s1: "snd (auction_credit_cb k s) = ?s1"
      using Some True p by (simp add: auction_credit_cb_def)
    have "fetch_auction ?s1 k = Some (a\<lparr>transferred := True\<rparr>)"
      using Some fetch_SomeD [OF Some]
      by (simp add: fetch_auction_def find_update_same)
    then have "snd (auction_credit_cb k ?s1) = ?s1"
      by (rule credit_noop) simp
    then show ?thesis by (simp add: s1)
  qed
qed

lemma find_map_upd:
  assumes "\<And>a. id' (f a) = id' a"
  shows "find (\<lambda>a. id' a = j) (map (\<lambda>a. if id' a = k then f a else a) xs) =
         map_option (\<lambda>a. if id' a = k then f a else a) (find (\<lambda>a. id' a = j) xs)"
  by (induction xs) (auto simp: assms)

subsection \<open>The leading bid and the bid ledger\<close>

lemma top_bid_snoc:
  "top_bid (bs @ [b]) k = (if auction_id b = k then better (top_bid bs k) b else top_bid bs k)"
  by (simp add: top_bid_def)

lemma top_bid_bounds:
  "(case top_bid bs k of
      None \<Rightarrow> filter (\<lambda>b. auction_id b = k) bs = []
    | Some t \<Rightarrow> auction_id t = k \<and> t \<in> set bs \<and>
        (\<forall>b\<in>set bs. auction_id b = k \<longrightarrow> amount b \<le> amount t))"
proof (induction bs rule: rev_induct)
  case Nil
  show ?case by (simp add: top_bid_def)
next
  case (snoc b bs)
  then show ?case
    by (cases "top_bid bs k") (auto simp: top_bid_snoc filter_empty_conv)
qed

lemma top_bid_None: "top_bid bs k = None \<Longrightarrow> filter (\<lambda>b. auction_id b = k) bs = []"
  using top_bid_bounds [where bs = bs and k = k] by simp

lemma top_bid_Some:
  "top_bid bs k = Some t \<Longrightarrow> b \<in> set bs \<Longrightarrow> auction_id b = k \<Longrightarrow> amount b \<le> amount t"
  using top_bid_bounds [where bs = bs and k = k] by simp

lemma place_bid_bids:
  "auction_bids (snd (place_bid t_chk t_fin t_bid t_end u k amt s)) =
     (if fst (place_bid t_chk t_fin t_bid t_end u k amt s) = BidPlaced
      then auction_bids s @ [\<lparr>auction_id = k, bidder_id = u, amount = amt, bid_iso = t_bid\<rparr>]
      else auction_bids s)"
  by (auto simp: place_bid_def Let_def finalize_expired_auctions_sync_def
      split: option.splits)

lemma place_bid_accepted_iff:
  assumes "fetch_auction s k = Some a" and "status a = Active" and "t_chk < end_iso a"
  shows "fst (place_bid t_chk t_fin t_bid t_end u k amt s) = BidPlaced \<longleftrightarrow>
           amt \<le> available_funds s u k \<and> bid_floor_met s a amt"
  using assms fetch_SomeD [OF assms(1)]
  by (auto simp: place_bid_def Let_def available_funds_def bid_floor_met_def leading_def
      get_crystals_def split: option.splits)

lemma place_bid_increasing:
  assumes "sorted_wrt (<) (amounts_of s j)"
  shows "sorted_wrt (<) (amounts_of (snd (place_bid t_chk t_fin t_bid t_end u k amt s)) j)"
proof (cases "fst (place_bid t_chk t_fin t_bid t_end u k amt s) = BidPlaced \<and> j = k")
  case False
  then show ?thesis using assms by (auto simp: amounts_of_def place_bid_bids)
next
  case True
  then obtain a where a: "fetch_auction s k = Some a" "status a = Active" "t_chk < end_iso a"
    by (auto simp: place_bid_def Let_def split: option.splits if_splits)
  with True have m: "bid_floor_met s a amt" by (simp add: place_bid_accepted_iff)
  have "id' a = k" using fetch_SomeD [OF a(1)] by simp
  have "\<forall>x\<in>set (amounts_of s k). x < amt"
  proof (cases "top_bid (auction_bids s) k")
    case None
    then show ?thesis by (simp add: amounts_of_def top_bid_None)
  next
    case (Some t)
    then have "amount t < amt" using m \<open>id' a = k\<close> by (simp add: bid_floor_met_def leading_def)
    then show ?thesis using top_bid_Some [OF Some] by (fastforce simp: amounts_of_def)
  qed
  then show ?thesis using True assms
    by (simp add: amounts_of_def place_bid_bids sorted_wrt_append)
qed

lemma create_auction_bids [simp]:
  "auction_bids (snd (create_auction now u w p s)) = auction_bids s"
  by (auto simp: create_auction_def Let_def rollback_reserve_def split: option.splits)

lemma claim_bids [simp]: "auction_bids (snd (auction_claim_cb k s)) = auction_bids s"
  by (auto simp: auction_claim_cb_def split: option.splits)

lemma credit_bids [simp]: "auction_bids (snd (auction_credit_cb k s)) = auction_bids s"
  by (auto simp: auction_credit_cb_def split: option.splits)

lemma apply_op_increasing:
  "sorted_wrt (<) (amounts_of s j) \<Longrightarrow> sorted_wrt (<) (amounts_of (apply_op x s) j)"
proof (cases x)
  case (PlaceBid t0 t_chk t_fin t_bid t_end u k amt)
  assume "sorted_wrt (<) (amounts_of s j)"
  then have "sorted_wrt (<) (amounts_of (finalize_expired_auctions_sync t0 s) j)"
    by (simp add: amounts_of_def finalize_expired_auctions_sync_def)
  then show ?thesis unfolding PlaceBid apply_op.simps bid_handler_def
    by (rule place_bid_increasing)
qed (simp_all add: amounts_of_def auction_handler_def finalize_expired_auctions_sync_def)

lemma run_increasing:
  "sorted_wrt (<) (amounts_of s j) \<Longrightarrow> sorted_wrt (<) (amounts_of (run xs s) j)"
  by (induction xs arbitrary: s) (simp_all add: apply_op_increasing)

subsection \<open>Funds through each operation\<close>

lemma sum_elsewhere:
  "u \<notin> F \<Longrightarrow> (\<Sum>y\<in>F. if y = u then v else f y) = sum f F"
  by (rule sum.cong) auto

lemma sum_credit:
  assumes "finite U" and "u \<in> U"
  shows "(\<Sum>y\<in>U. if y = u then f u + x else f y) = sum f U + (x::int)"
  using assms
proof (induction U rule: finite_induct)
  case empty
  then show ?case by simp
next
  case (insert a F)
  show ?case
  proof (cases "u = a")
    case True
    then show ?thesis using insert.hyps by (simp add: sum_elsewhere)
  next
    case False
    then have "u \<in> F" using insert.prems by simp
    then show ?thesis using insert False by simp
  qed
qed

lemma sum_list_one_changed:
  assumes "distinct (map id' xs)" and "x \<in> set xs"
    and "\<And>y. y \<in> set xs \<Longrightarrow> id' y \<noteq> id' x \<Longrightarrow> G' (f y) = G y"
  shows "sum_list (map G' (map f xs)) = sum_list (map G xs) + (G' (f x) - G x :: int)"
  using assms
proof (induction xs)
  case Nil
  then show ?case by simp
next
  case (Cons y ys)
  show ?case
  proof (cases "y = x")
    case True
    then have "id' x \<notin> id' ` set ys" using Cons.prems(1) by simp
    then have "\<forall>z\<in>set ys. id' z \<noteq> id' x" by (metis imageI)
    then have e: "map G' (map f ys) = map G ys" using Cons.prems(3) by simp
    show ?thesis by (simp only: True list.map e sum_list.Cons)
  next
    case False
    then have "x \<in> set ys" and "id' y \<noteq> id' x"
      using Cons.prems by auto
    then show ?thesis using Cons by simp
  qed
qed

lemma same_tables:
  assumes "auctions s' = auctions s" "auction_bids s' = auction_bids s" "crystals s' = crystals s"
  shows "consistent U s' = consistent U s" "total_funds U s' = total_funds U s"
  using assms by (simp_all add: consistent_def total_funds_def wallets_def escrow_def)

lemma update_absent:
  "k \<notin> id' ` set xs \<Longrightarrow> map (\<lambda>a. if id' a = k then f a else a) xs = xs"
  by (induction xs) auto

lemma consistent_update:
  assumes "consistent U s"
    and rows: "auctions s' = map (\<lambda>a. if id' a = k then f a else a) (auctions s)"
    and bids: "list_all (\<lambda>b. bidder_id b \<in> U \<and> bidder_id b \<noteq> 0 \<and>
                   auction_id b \<in> id' ` set (auctions s)) (auction_bids s')"
    and f: "\<And>a. a \<in> set (auctions s) \<Longrightarrow> id' a = k \<Longrightarrow>
           id' (f a) = k \<and> seller_id (f a) = seller_id a \<and>
           (status (f a) = Finished) = transferred (f a)"
  shows "consistent U s'"
proof -
  have ids: "map id' (auctions s') = map id' (auctions s)"
    unfolding rows using f by (induction "auctions s" arbitrary: s) auto
  have "set (map id' (auctions s')) = set (map id' (auctions s))"
    by (simp only: ids)
  then have img: "id' ` set (auctions s') = id' ` set (auctions s)"
    by (simp only: set_map)
  have "distinct (map id' (auctions s'))"
    using assms(1) by (simp only: ids consistent_def)
  moreover have "list_all (\<lambda>a. seller_id a \<in> U \<and> (status a = Finished) = transferred a)
      (auctions s')"
    using assms(1) f by (auto simp: consistent_def list_all_iff rows)
  moreover have "list_all (\<lambda>b. bidder_id b \<in> U \<and> bidder_id b \<noteq> 0 \<and>
                   auction_id b \<in> id' ` set (auctions s')) (auction_bids s')"
    using bids unfolding img .
  ultimately show ?thesis using assms(1) by (simp add: consistent_def)
qed

lemma consistent_bids:
  "consistent U s \<Longrightarrow>
   list_all (\<lambda>b. bidder_id b \<in> U \<and> bidder_id b \<noteq> 0 \<and>
                 auction_id b \<in> id' ` set (auctions s)) (auction_bids s)"
  by (simp add: consistent_def)

lemma wallets_add_crystals:
  "finite U \<Longrightarrow> u \<in> U \<Longrightarrow> wallets U (add_crystals u x s) = wallets U s + x"
  by (simp add: wallets_def sum_credit)

lemma wallets_same: "crystals s' = crystals s \<Longrightarrow> wallets U s' = wallets U s"
  by (simp add: wallets_def)

lemma flag_fetch: "fetch_auction s k = Some a \<Longrightarrow> transferred_flag s k = transferred a"
  by (simp add: transferred_flag_def)

lemma crystals_credit_seller:
  "crystals (credit_seller k u p s) =
     (if transferred_flag s k then crystals s else (crystals s)(u := crystals s u + p))"
  by (simp add: credit_seller_def)

lemma finalize_one_funds:
  assumes "consistent U s"
  shows "consistent U (finalize_one s k) \<and> total_funds U (finalize_one s k) = total_funds U s"
proof (cases "fetch_auction s k")
  case None
  then have "k \<notin> id' ` set (auctions s)" by (simp add: fetch_None_iff)
  then have "auctions (finalize_one s k) = auctions s" "crystals (finalize_one s k) = crystals s"
    by (simp_all add: finalize_one_def None update_absent)
  then show ?thesis using assms same_tables [of "finalize_one s k" s U] by simp
next
  case (Some arow)
  note row = fetch_SomeD [OF Some]
  have U: "finite U" "seller_id arow \<in> U" "distinct (map id' (auctions s))"
    and ft: "(status arow = Finished) = transferred arow"
    using assms row by (auto simp: consistent_def list_all_iff)
  show ?thesis
  proof (cases "top_bid (auction_bids s) k")
    case None
    let ?f = "\<lambda>a::auction. a\<lparr>status := Finished, transferred := True\<rparr>"
    have rows: "auctions (finalize_one s k) = map (\<lambda>a. if id' a = k then ?f a else a) (auctions s)"
      and cr: "crystals (finalize_one s k) = crystals s"
      using Some None by (simp_all add: finalize_one_def)
    have c: "consistent U (finalize_one s k)"
      by (rule consistent_update [OF assms rows]) (simp_all add: consistent_bids [OF assms])
    have "escrow (finalize_one s k) =
        escrow s + (escrowed (auction_bids s) (if id' arow = k then ?f arow else arow)
           - escrowed (auction_bids s) arow)"
      unfolding escrow_def rows finalize_one_bids
      by (rule sum_list_one_changed [OF U(3)]) (use row in auto)
    also have "\<dots> = escrow s" using None row by (simp add: escrowed_def held_def)
    finally show ?thesis using c by (simp add: total_funds_def wallets_def cr)
  next
    case (Some t)
    let ?f = "\<lambda>a::auction. a\<lparr>status := Finished, winner_id := Some (bidder_id t),
                 final_price := Some (amount t), transferred := True\<rparr>"
    have rows: "auctions (finalize_one s k) = map (\<lambda>a. if id' a = k then ?f a else a) (auctions s)"
      and cr: "crystals (finalize_one s k) =
          (if transferred arow then crystals s
           else (crystals s)(seller_id arow := crystals s (seller_id arow) + amount t))"
      using \<open>fetch_auction s k = Some arow\<close> Some
      by (simp_all add: finalize_one_def crystals_credit_seller
          flag_cong [of "grant_winner _ _ _ _"] flag_fetch)
    have c: "consistent U (finalize_one s k)"
      by (rule consistent_update [OF assms rows]) (simp_all add: consistent_bids [OF assms])
    have "escrow (finalize_one s k) =
        escrow s + (escrowed (auction_bids s) (if id' arow = k then ?f arow else arow)
           - escrowed (auction_bids s) arow)"
      unfolding escrow_def rows finalize_one_bids
      by (rule sum_list_one_changed [OF U(3)]) (use row in auto)
    also have "\<dots> = escrow s - (if transferred arow then 0 else amount t)"
      using Some row ft by (cases "status arow") (simp_all add: escrowed_def held_def)
    finally show ?thesis using c U
      by (simp add: total_funds_def wallets_def cr sum_credit)
  qed
qed

lemma foldl_finalize_funds:
  "consistent U s \<Longrightarrow>
   consistent U (foldl finalize_one s ks) \<and> total_funds U (foldl finalize_one s ks) = total_funds U s"
  by (induction ks arbitrary: s) (simp_all add: finalize_one_funds)

lemma sweep_funds:
  "consistent U s \<Longrightarrow>
   consistent U (finalize_expired_auctions now s) \<and>
   total_funds U (finalize_expired_auctions now s) = total_funds U s"
  by (simp add: finalize_expired_auctions_def foldl_finalize_funds)

lemma held_snoc_other:
  "auction_id b \<noteq> j \<Longrightarrow> held (bs @ [b]) j = held bs j"
  by (simp add: held_def top_bid_snoc)

lemma held_snoc_raised:
  assumes "auction_id b = k"
    and "case top_bid bs k of Some c \<Rightarrow> amount c < amount b | None \<Rightarrow> True"
  shows "held (bs @ [b]) k = amount b"
  using assms by (cases "top_bid bs k") (simp_all add: held_def top_bid_snoc)

lemma place_bid_rejected:
  "fst (place_bid t_chk t_fin t_bid t_end u k amt s) \<noteq> BidPlaced \<Longrightarrow>
   snd (place_bid t_chk t_fin t_bid t_end u k amt s) = s \<or>
   snd (place_bid t_chk t_fin t_bid t_end u k amt s) = finalize_expired_auctions t_fin s"
  by (auto simp: place_bid_def Let_def finalize_expired_auctions_sync_def split: option.splits)

lemma place_bid_accepted:
  assumes "fst (place_bid t_chk t_fin t_bid t_end u k amt s) = BidPlaced"
  shows "\<exists>a. fetch_auction s k = Some a \<and> status a = Active \<and> t_chk < end_iso a \<and>
           amt \<le> available_funds s u k \<and> bid_floor_met s a amt \<and>
           snd (place_bid t_chk t_fin t_bid t_end u k amt s) =
             update_auction k (\<lambda>a. a\<lparr>end_iso := t_end + timedelta BID_TIMEOUT_SECONDS\<rparr>)
               ((pay_bid u k amt s)\<lparr>auction_bids := auction_bids s @
                  [\<lparr>auction_id = k, bidder_id = u, amount = amt, bid_iso = t_bid\<rparr>]\<rparr>)"
proof -
  from assms obtain a where a: "fetch_auction s k = Some a" "status a = Active" "t_chk < end_iso a"
    by (auto simp: place_bid_def Let_def split: option.splits if_splits)
  note acc = place_bid_accepted_iff [OF a, THEN iffD1, OF assms]
  have "id' a = k" using fetch_SomeD [OF a(1)] by simp
  with acc a assms show ?thesis
    by (auto simp: place_bid_def Let_def pay_bid_def leading_def available_funds_def
        bid_floor_met_def get_crystals_def add_crystals_def split: option.splits if_splits)
qed

lemma place_bid_funds:
  assumes "consistent U s" and "u \<in> U" and "u \<noteq> 0"
  shows "consistent U (snd (place_bid t_chk t_fin t_bid t_end u k amt s)) \<and>
         total_funds U (snd (place_bid t_chk t_fin t_bid t_end u k amt s)) = total_funds U s"
proof (cases "fst (place_bid t_chk t_fin t_bid t_end u k amt s) = BidPlaced")
  case False
  from place_bid_rejected [OF False] show ?thesis
    using assms(1) sweep_funds [OF assms(1)] by auto
next
  case True
  let ?b = "\<lparr>auction_id = k, bidder_id = u, amount = amt, bid_iso = t_bid\<rparr>"
  let ?f = "\<lambda>a::auction. a\<lparr>end_iso := t_end + timedelta BID_TIMEOUT_SECONDS\<rparr>"
  let ?s' = "snd (place_bid t_chk t_fin t_bid t_end u k amt s)"
  from place_bid_accepted [OF True] obtain a where
    a: "fetch_auction s k = Some a" "status a = Active"
    and floor: "bid_floor_met s a amt"
    and s': "?s' = update_auction k ?f ((pay_bid u k amt s)\<lparr>auction_bids := auction_bids s @ [?b]\<rparr>)"
    by blast
  note row = fetch_SomeD [OF a(1)]
  have U: "finite U" "distinct (map id' (auctions s))"
    using assms(1) by (simp_all add: consistent_def)
  have pay_rows: "auctions (pay_bid u k amt s) = auctions s"
    by (simp add: pay_bid_def split: option.splits)
  have rows: "auctions ?s' = map (\<lambda>a. if id' a = k then ?f a else a) (auctions s)"
    and bids: "auction_bids ?s' = auction_bids s @ [?b]"
    and cr: "crystals ?s' = crystals (pay_bid u k amt s)"
    by (simp_all add: s' pay_rows)
  have c: "consistent U ?s'"
  proof (rule consistent_update [OF assms(1) rows])
    show "list_all (\<lambda>b. bidder_id b \<in> U \<and> bidder_id b \<noteq> 0 \<and>
                   auction_id b \<in> id' ` set (auctions s)) (auction_bids ?s')"
      using consistent_bids [OF assms(1)] assms(2,3) row by (auto simp: bids)
  next
    fix a assume "a \<in> set (auctions s)" "id' a = k"
    then show "id' (?f a) = k \<and> seller_id (?f a) = seller_id a \<and>
           (status (?f a) = Finished) = transferred (?f a)"
      using assms(1) by (auto simp: consistent_def list_all_iff)
  qed
  have top: "case top_bid (auction_bids s) k of Some c \<Rightarrow> amount c < amount ?b | None \<Rightarrow> True"
    using floor row by (simp add: bid_floor_met_def leading_def split: option.splits)
  have "escrow ?s' = escrow s +
      (escrowed (auction_bids s @ [?b]) (if id' a = k then ?f a else a) -
       escrowed (auction_bids s) a)"
    unfolding escrow_def rows bids
  proof (rule sum_list_one_changed [OF U(2)])
    show "a \<in> set (auctions s)" using row by simp
  next
    fix y assume "y \<in> set (auctions s)" "id' y \<noteq> id' a"
    then show "escrowed (auction_bids s @ [?b]) (if id' y = k then ?f y else y) =
               escrowed (auction_bids s) y"
      using row by (simp add: escrowed_def held_snoc_other)
  qed
  also have "\<dots> = escrow s + (amt - held (auction_bids s) k)"
    using row a(2) held_snoc_raised [OF _ top] by (simp add: escrowed_def)
  finally have e: "escrow ?s' = escrow s + (amt - held (auction_bids s) k)" .
  have w: "wallets U (pay_bid u k amt s) = wallets U s - (amt - held (auction_bids s) k)"
  proof (cases "top_bid (auction_bids s) k")
    case None
    then show ?thesis using U(1) assms(2)
      by (simp add: pay_bid_def leading_def held_def wallets_add_crystals)
  next
    case (Some c)
    have "c \<in> set (auction_bids s)"
      using top_bid_bounds [where bs = "auction_bids s" and k = k] Some by simp
    then have "bidder_id c \<in> U" "bidder_id c \<noteq> 0"
      using consistent_bids [OF assms(1)] by (auto simp: list_all_iff)
    then show ?thesis using U(1) assms(2) Some
      by (simp add: pay_bid_def leading_def held_def wallets_add_crystals)
  qed
  have "wallets U ?s' = wallets U (pay_bid u k amt s)"
    by (rule wallets_same) (rule cr)
  then show ?thesis using c e w by (simp add: total_funds_def)
qed

lemma next_id_above: "a \<in> set rows \<Longrightarrow> id' a < next_id rows"
  unfolding next_id_def by (induction rows) auto

lemma create_auction_started:
  assumes "create_auction now u w p s = (Started k, s')"
  shows "\<exists>c. waifu_cards s w = Some c \<and>
           auctions s' = auctions s @
             [\<lparr>id' = k, waifu_id = w, seller_id = u, start_iso = now,
               end_iso = now + timedelta BID_TIMEOUT_SECONDS, min_price = p, status = Active,
               winner_id = None, final_price = None, transferred = False, snapshot = c\<rparr>] \<and>
           k \<notin> id' ` set (auctions s) \<and>
           crystals s' = crystals s \<and> auction_bids s' = auction_bids s"
  using assms
  by (auto simp: create_auction_def Let_def rollback_reserve_def
      split: option.splits if_splits sum.splits dest: next_id_above)

lemma create_auction_failed:
  assumes "\<forall>k. fst (create_auction now u w p s) \<noteq> Started k"
  shows "auctions (snd (create_auction now u w p s)) = auctions s \<and>
         crystals (snd (create_auction now u w p s)) = crystals s"
  using assms
  by (auto simp: create_auction_def Let_def rollback_reserve_def
      split: option.splits if_splits sum.splits)

lemma create_auction_funds:
  assumes "consistent U s" and "u \<in> U"
  shows "consistent U (snd (create_auction now u w p s)) \<and>
         total_funds U (snd (create_auction now u w p s)) = total_funds U s"
proof (cases "\<exists>k. fst (create_auction now u w p s) = Started k")
  case False
  then have "auctions (snd (create_auction now u w p s)) = auctions s"
    "crystals (snd (create_auction now u w p s)) = crystals s"
    using create_auction_failed [of now u w p s] by simp_all
  then show ?thesis
    using assms(1) same_tables [of "snd (create_auction now u w p s)" s U] by simp
next
  case True
  then obtain k where "create_auction now u w p s = (Started k, snd (create_auction now u w p s))"
    by (auto simp: prod_eq_iff)
  from create_auction_started [OF this] obtain row where
    rows: "auctions (snd (create_auction now u w p s)) = auctions s @ [row]"
    and row: "id' row = k" "seller_id row = u" "status row = Active" "\<not> transferred row"
    and fresh: "k \<notin> id' ` set (auctions s)"
    and cr: "crystals (snd (create_auction now u w p s)) = crystals s"
    by auto
  have none: "filter (\<lambda>b. auction_id b = k) (auction_bids s) = []"
    using consistent_bids [OF assms(1)] fresh by (auto simp: filter_empty_conv list_all_iff)
  then have "held (auction_bids s) k = 0" by (simp add: held_def top_bid_def)
  then have "escrow (snd (create_auction now u w p s)) = escrow s"
    using row by (simp add: escrow_def rows escrowed_def)
  moreover have "consistent U (snd (create_auction now u w p s))"
    using assms fresh row by (auto simp: consistent_def rows list_all_iff)
  ultimately show ?thesis by (simp add: total_funds_def wallets_def cr)
qed

lemma manual_funds:
  assumes "consistent U s"
  shows "snd (auction_claim_cb k s) = s" "snd (auction_credit_cb k s) = s"
proof -
  have "snd (auction_claim_cb k s) = s \<and> snd (auction_credit_cb k s) = s"
  proof (cases "fetch_auction s k")
    case None
    then show ?thesis by (simp add: auction_claim_cb_def auction_credit_cb_def)
  next
    case (Some b)
    then have "status b = Finished \<longrightarrow> transferred b"
      using assms fetch_SomeD [OF Some] by (auto simp: consistent_def list_all_iff)
    with Some show ?thesis by (simp add: claim_noop credit_noop)
  qed
  then show "snd (auction_claim_cb k s) = s" "snd (auction_credit_cb k s) = s" by simp_all
qed

lemma apply_op_funds:
  assumes "consistent U s" and "known_user U x"
  shows "consistent U (apply_op x s) \<and> total_funds U (apply_op x s) = total_funds U s"
proof (cases x)
  case (CreateAuction t0 now u w p)
  then show ?thesis
    using assms sweep_funds [OF assms(1), of t0]
      create_auction_funds [of U "finalize_expired_auctions t0 s" u now w p]
    by (simp add: auction_handler_def finalize_expired_auctions_sync_def)
next
  case (PlaceBid t0 t_chk t_fin t_bid t_end u k amt)
  then show ?thesis
    using assms sweep_funds [OF assms(1), of t0]
      place_bid_funds [of U "finalize_expired_auctions t0 s" u t_chk t_fin t_bid t_end k amt]
    by (simp add: bid_handler_def finalize_expired_auctions_sync_def)
next
  case (FinalizeExpired now)
  then show ?thesis using sweep_funds [OF assms(1)] by simp
next
  case (ManualClaim k)
  then show ?thesis using assms(1) by (simp add: manual_funds)
next
  case (ManualCredit k)
  then show ?thesis using assms(1) by (simp add: manual_funds)
qed

subsection \<open>End times through each operation\<close>

lemma ends_within_rel:
  assumes "list_all2 R xs ys" and "\<And>a b. R a b \<Longrightarrow> end_iso b = end_iso a"
    and "list_all (\<lambda>a. end_iso a \<le> e) xs"
  shows "list_all (\<lambda>a. end_iso a \<le> e) ys"
  using assms(1,3) by (induction rule: list_all2_induct) (auto dest: assms(2))

lemma sweep_ends_within:
  "ends_within t s \<Longrightarrow> ends_within t (finalize_expired_auctions now s)"
  unfolding ends_within_def
  by (rule ends_within_rel [OF sweep_rows]) (simp_all add: settled_from_def)

lemma sweep_end_of: "end_of (finalize_expired_auctions now s) k = end_of s k"
  using sweep_fetch [of now s k]
  by (cases "fetch_auction s k"; cases "fetch_auction (finalize_expired_auctions now s) k")
     (simp_all add: end_of_def settled_from_def)

lemma place_bid_end:
  assumes "place_bid t_chk t_fin t_bid t_end u k amt s = (BidPlaced, s')"
  shows "end_of s' k = Some (t_end + timedelta BID_TIMEOUT_SECONDS) \<and>
         (\<exists>a. fetch_auction s k = Some a) \<and>
         auctions s' =
           map (\<lambda>a. if id' a = k then a\<lparr>end_iso := t_end + timedelta BID_TIMEOUT_SECONDS\<rparr>
                     else a) (auctions s)"
proof -
  from assms obtain a where a: "fetch_auction s k = Some a"
    by (auto simp: place_bid_def split: option.splits)
  have ida: "id' a = k" using fetch_SomeD [OF a] by simp
  from assms a
  have rows: "auctions s' =
      map (\<lambda>a. if id' a = k then a\<lparr>end_iso := t_end + timedelta BID_TIMEOUT_SECONDS\<rparr> else a)
        (auctions s)"
    by (auto simp: place_bid_def Let_def split: if_splits option.splits)
  have "end_of s' k = Some (t_end + timedelta BID_TIMEOUT_SECONDS)"
    using a ida unfolding end_of_def fetch_auction_def rows
    by (subst find_map_upd) (auto simp: fetch_auction_def)
  then show ?thesis using a rows by simp
qed

lemma place_bid_ends_within:
  assumes "ends_within t s" and "t_end \<le> t"
  shows "ends_within t (snd (place_bid t_chk t_fin t_bid t_end u k amt s))"
proof (cases "fst (place_bid t_chk t_fin t_bid t_end u k amt s) = BidPlaced")
  case False
  from place_bid_rejected [OF False] show ?thesis
    using assms(1) sweep_ends_within [OF assms(1)] by auto
next
  case True
  then have "place_bid t_chk t_fin t_bid t_end u k amt s =
      (BidPlaced, snd (place_bid t_chk t_fin t_bid t_end u k amt s))"
    by (simp add: prod_eq_iff)
  from place_bid_end [OF this] show ?thesis
    using assms by (auto simp: ends_within_def list_all_iff)
qed

lemma create_auction_ends_within:
  assumes "ends_within t s" and "now \<le> t"
  shows "ends_within t (snd (create_auction now u w p s))"
proof (cases "\<exists>k. fst (create_auction now u w p s) = Started k")
  case False
  then have "auctions (snd (create_auction now u w p s)) = auctions s"
    using create_auction_failed [of now u w p s] by simp
  then show ?thesis using assms(1) by (simp add: ends_within_def)
next
  case True
  then obtain k where "create_auction now u w p s = (Started k, snd (create_auction now u w p s))"
    by (auto simp: prod_eq_iff)
  from create_auction_started [OF this] show ?thesis
    using assms by (auto simp: ends_within_def)
qed

lemma manual_ends_within:
  "ends_within t s \<Longrightarrow> ends_within t (snd (auction_claim_cb k s))"
  "ends_within t s \<Longrightarrow> ends_within t (snd (auction_credit_cb k s))"
  by (auto simp: ends_within_def auction_claim_cb_def auction_credit_cb_def list_all_iff
      split: option.splits)

lemma apply_op_ends_within:
  assumes "ends_within t s" and "read_by t x"
  shows "ends_within t (apply_op x s)"
proof (cases x)
  case (CreateAuction t0 now u w p)
  then show ?thesis
    using assms create_auction_ends_within [OF sweep_ends_within [OF assms(1), of t0]]
    by (simp add: auction_handler_def finalize_expired_auctions_sync_def)
next
  case (PlaceBid t0 t_chk t_fin t_bid t_end u k amt)
  then show ?thesis
    using assms place_bid_ends_within [OF sweep_ends_within [OF assms(1), of t0]]
    by (simp add: bid_handler_def finalize_expired_auctions_sync_def)
next
  case (FinalizeExpired now)
  then show ?thesis using assms(1) by (simp add: sweep_ends_within)
next
  case (ManualClaim k)
  then show ?thesis using assms(1) by (simp add: manual_ends_within)
next
  case (ManualCredit k)
  then show ?thesis using assms(1) by (simp add: manual_ends_within)
qed

lemma run_ends_within:
  "ends_within t s \<Longrightarrow> list_all (read_by t) xs \<Longrightarrow> ends_within t (run xs s)"
  by (induction xs arbitrary: s) (simp_all add: apply_op_ends_within)

subsection \<open>Items through each operation\<close>

lemma units_add_card:
  "units (add_card u w s) w' y =
     (if y = u \<and> w' = w then units s w u + 1 else units s w' y)"
  by (auto simp: units_def add_card_def split: option.splits)

lemma holdings_add_card:
  assumes "finite U" and "u \<in> U"
  shows "sum (units (add_card u w s) w') U = sum (units s w') U + (if w' = w then 1 else 0)"
proof (cases "w' = w")
  case False
  have "sum (units (add_card u w s) w') U = sum (units s w') U"
    by (rule sum.cong) (simp_all add: units_add_card False)
  then show ?thesis using False by simp
next
  case True
  have "sum (units (add_card u w s) w) U =
      (\<Sum>y\<in>U. if y = u then units s w u + 1 else units s w y)"
    by (rule sum.cong) (simp_all add: units_add_card)
  also have "\<dots> = sum (units s w) U + 1"
    by (rule sum_credit [OF assms])
  finally show ?thesis using True by simp
qed

lemma holdings_same:
  "user_waifus s' = user_waifus s \<Longrightarrow> sum (units s' w) U = sum (units s w) U"
  by (rule sum.cong) (simp_all add: units_def)

lemma grant_is_add_card:
  "\<not> transferred_flag s k \<Longrightarrow> grant_winner k u w s = add_card u w s"
  by (simp add: grant_winner_def add_card_def split: option.splits)

lemma find_unique:
  "distinct (map id' xs) \<Longrightarrow> a \<in> set xs \<Longrightarrow> find (\<lambda>b. id' b = id' a) xs = Some a"
  by (induction xs) (auto simp: image_iff)

lemma find_map_other:
  assumes "j \<noteq> k" and "\<And>a. id' a = k \<Longrightarrow> id' (f a) = k"
  shows "find (\<lambda>a. id' a = j) (map (\<lambda>a. if id' a = k then f a else a) xs) =
         find (\<lambda>a. id' a = j) xs"
  using assms by (induction xs) auto

lemma finalize_one_shape:
  "\<exists>f. auctions (finalize_one s k) = map (\<lambda>a. if id' a = k then f a else a) (auctions s) \<and>
        (\<forall>a. id' (f a) = id' a \<and> waifu_id (f a) = waifu_id a \<and> status (f a) = Finished)"
proof (cases "fetch_auction s k")
  case None
  then show ?thesis
    by (intro exI [of _ "\<lambda>a. a\<lparr>status := Finished\<rparr>"]) (simp add: finalize_one_def)
next
  case (Some arow)
  show ?thesis
  proof (cases "top_bid (auction_bids s) k")
    case None
    then show ?thesis using Some
      by (intro exI [of _ "\<lambda>a. a\<lparr>status := Finished, transferred := True\<rparr>"])
         (simp add: finalize_one_def)
  next
    case (Some t)
    then show ?thesis using \<open>fetch_auction s k = Some arow\<close>
      by (intro exI [of _ "\<lambda>a. a\<lparr>status := Finished, winner_id := Some (bidder_id t),
                 final_price := Some (amount t), transferred := True\<rparr>"])
         (simp add: finalize_one_def)
  qed
qed

lemma finalize_one_fetch_other:
  assumes "j \<noteq> k"
  shows "fetch_auction (finalize_one s k) j = fetch_auction s j"
proof -
  from finalize_one_shape [of s k] obtain f where
    rows: "auctions (finalize_one s k) = map (\<lambda>a. if id' a = k then f a else a) (auctions s)"
    and f: "\<And>a. id' (f a) = id' a" by blast
  show ?thesis unfolding fetch_auction_def rows
    by (rule find_map_other [OF assms]) (simp add: f)
qed

lemma finalize_one_items:
  assumes "consistent U s" and "fetch_auction s k = Some arow" and "status arow = Active"
  shows "copies U (finalize_one s k) w = copies U s w"
proof -
  note row = fetch_SomeD [OF assms(2)]
  have U: "finite U" "seller_id arow \<in> U" "distinct (map id' (auctions s))"
    and nt: "\<not> transferred arow"
    using assms row by (auto simp: consistent_def list_all_iff)
  from finalize_one_shape [of s k] obtain f where
    rows: "auctions (finalize_one s k) = map (\<lambda>a. if id' a = k then f a else a) (auctions s)"
    and f: "\<And>a. id' (f a) = id' a" "\<And>a. waifu_id (f a) = waifu_id a"
      "\<And>a. status (f a) = Finished" by blast
  have "in_flight (finalize_one s k) w =
      in_flight s w + (in_flight_of w (if id' arow = k then f arow else arow) - in_flight_of w arow)"
    unfolding in_flight_def rows
    by (rule sum_list_one_changed [OF U(3)]) (use row in auto)
  also have "\<dots> = in_flight s w - (if waifu_id arow = w then 1 else 0)"
    using row assms(3) f by (simp add: in_flight_of_def)
  finally have fl: "in_flight (finalize_one s k) w =
      in_flight s w - (if waifu_id arow = w then 1 else 0)" .
  have "sum (units (finalize_one s k) w) U =
      sum (units s w) U + (if w = waifu_id arow then 1 else 0)"
  proof (cases "top_bid (auction_bids s) k")
    case None
    then have "user_waifus (finalize_one s k) =
        user_waifus (add_card (seller_id arow) (waifu_id arow) s)"
      using assms(2) by (simp add: finalize_one_def)
    then have "sum (units (finalize_one s k) w) U =
        sum (units (add_card (seller_id arow) (waifu_id arow) s) w) U"
      by (rule holdings_same)
    then show ?thesis by (simp add: holdings_add_card [OF U(1,2)])
  next
    case (Some t)
    have "t \<in> set (auction_bids s)"
      using top_bid_bounds [where bs = "auction_bids s" and k = k] Some by simp
    then have tU: "bidder_id t \<in> U"
      using consistent_bids [OF assms(1)] by (auto simp: list_all_iff)
    have "\<not> transferred_flag s k" using nt assms(2) by (simp add: flag_fetch)
    then have "user_waifus (finalize_one s k) =
        user_waifus (add_card (bidder_id t) (waifu_id arow) s)"
      using assms(2) Some by (simp add: finalize_one_def grant_is_add_card)
    then have "sum (units (finalize_one s k) w) U =
        sum (units (add_card (bidder_id t) (waifu_id arow) s) w) U"
      by (rule holdings_same)
    then show ?thesis by (simp add: holdings_add_card [OF U(1) tU])
  qed
  then show ?thesis using fl by (auto simp: copies_def)
qed

lemma foldl_finalize_items:
  assumes "consistent U s" and "distinct ks"
    and "\<forall>k\<in>set ks. \<exists>a. fetch_auction s k = Some a \<and> status a = Active"
  shows "copies U (foldl finalize_one s ks) w = copies U s w"
  using assms
proof (induction ks arbitrary: s)
  case Nil
  then show ?case by simp
next
  case (Cons k ks)
  from Cons.prems(3) obtain a where a: "fetch_auction s k = Some a" "status a = Active"
    by auto
  have c: "consistent U (finalize_one s k)"
    using finalize_one_funds [OF Cons.prems(1)] by simp
  have "\<forall>j\<in>set ks. \<exists>a. fetch_auction (finalize_one s k) j = Some a \<and> status a = Active"
  proof
    fix j assume j: "j \<in> set ks"
    then have "j \<noteq> k" using Cons.prems(2) by auto
    then show "\<exists>a. fetch_auction (finalize_one s k) j = Some a \<and> status a = Active"
      using Cons.prems(3) j by (simp add: finalize_one_fetch_other)
  qed
  then have "copies U (foldl finalize_one (finalize_one s k) ks) w =
      copies U (finalize_one s k) w"
    using Cons.IH [OF c] Cons.prems(2) by simp
  then show ?case using finalize_one_items [OF Cons.prems(1) a] by simp
qed

lemma sweep_items:
  assumes "consistent U s"
  shows "copies U (finalize_expired_auctions now s) w = copies U s w"
  unfolding finalize_expired_auctions_def
proof (rule foldl_finalize_items [OF assms])
  have d: "distinct (map id' (auctions s))" using assms by (simp add: consistent_def)
  then show "distinct (expired_ids now s)"
    by (simp add: expired_ids_def distinct_map_filter)
  show "\<forall>k\<in>set (expired_ids now s). \<exists>a. fetch_auction s k = Some a \<and> status a = Active"
    using find_unique [OF d] by (auto simp: expired_ids_def fetch_auction_def)
qed

lemma sweep_cards [simp]: "waifu_cards (finalize_expired_auctions now s) = waifu_cards s"
  by (simp add: finalize_expired_auctions_def)

lemma create_auction_cards [simp]:
  "waifu_cards (snd (create_auction now u w p s)) = waifu_cards s"
  by (auto simp: create_auction_def Let_def rollback_reserve_def split: option.splits)

lemma place_bid_cards [simp]:
  "waifu_cards (snd (place_bid t_chk t_fin t_bid t_end u k amt s)) = waifu_cards s"
  by (auto simp: place_bid_def Let_def finalize_expired_auctions_sync_def split: option.splits)

lemma claim_cards [simp]: "waifu_cards (snd (auction_claim_cb k s)) = waifu_cards s"
  by (auto simp: auction_claim_cb_def split: option.splits)

lemma credit_cards [simp]: "waifu_cards (snd (auction_credit_cb k s)) = waifu_cards s"
  by (auto simp: auction_credit_cb_def split: option.splits)

lemma apply_op_cards [simp]: "waifu_cards (apply_op x s) = waifu_cards s"
  by (cases x)
     (simp_all add: auction_handler_def bid_handler_def finalize_expired_auctions_sync_def)

lemma sum_credit_if:
  assumes "finite U" and "u \<in> U"
  shows "(\<Sum>y\<in>U. if y = u \<and> c then f u + x else f y) = sum f U + (if c then x else 0 :: int)"
  using assms by (cases c) (simp_all add: sum_credit)

lemma create_auction_items:
  assumes "consistent U s" and "u \<in> U" and "waifu_cards s w \<noteq> None" and "sqlite_int p"
  shows "copies U (snd (create_auction now u w p s)) w' = copies U s w'"
proof (cases "sqlite_int u \<and> sqlite_int w \<and> (\<exists>n. user_waifus s (u, w) = Some n \<and> 0 < n)")
  case False
  then have "snd (create_auction now u w p s) = s"
    by (auto simp: create_auction_def split: option.splits)
  then show ?thesis by simp
next
  case True
  then obtain n where n: "user_waifus s (u, w) = Some n" "0 < n"
    and fits: "sqlite_int u" "sqlite_int w" by blast
  from assms(3) obtain c where c: "waifu_cards s w = Some c" by auto
  let ?s' = "snd (create_auction now u w p s)"
  let ?row = "\<lparr>id' = next_id (auctions s), waifu_id = w, seller_id = u, start_iso = now,
               end_iso = now + timedelta BID_TIMEOUT_SECONDS, min_price = p, status = Active,
               winner_id = None, final_price = None, transferred = False, snapshot = c\<rparr>"
  have rows: "auctions ?s' = auctions s @ [?row]"
    and inv: "user_waifus ?s' =
        (if 1 < n then (user_waifus s)((u, w) \<mapsto> n - 1) else (user_waifus s)((u, w) := None))"
    using n c fits assms(4) by (simp_all add: create_auction_def Let_def)
  have "units ?s' w' y = (if y = u \<and> w' = w then units s w' u + - 1 else units s w' y)" for y
    using n by (auto simp: units_def inv)
  then have "sum (units ?s' w') U =
      (\<Sum>y\<in>U. if y = u \<and> w' = w then units s w' u + - 1 else units s w' y)"
    by (intro sum.cong) simp_all
  also have "\<dots> = sum (units s w') U + (if w' = w then - 1 else 0)"
    using assms(1,2) by (intro sum_credit_if) (simp_all add: consistent_def)
  finally have h: "sum (units ?s' w') U = sum (units s w') U - (if w' = w then 1 else 0)"
    by simp
  have "in_flight ?s' w' = in_flight s w' + (if w' = w then 1 else 0)"
    by (auto simp: in_flight_def rows in_flight_of_def)
  then show ?thesis using h by (simp add: copies_def)
qed

lemma place_bid_items:
  assumes "consistent U s"
  shows "copies U (snd (place_bid t_chk t_fin t_bid t_end u k amt s)) w = copies U s w"
proof (cases "fst (place_bid t_chk t_fin t_bid t_end u k amt s) = BidPlaced")
  case False
  from place_bid_rejected [OF False] show ?thesis
    using sweep_items [OF assms] by auto
next
  case True
  let ?s' = "snd (place_bid t_chk t_fin t_bid t_end u k amt s)"
  from place_bid_accepted [OF True] obtain a where
    s': "?s' = update_auction k (\<lambda>a. a\<lparr>end_iso := t_end + timedelta BID_TIMEOUT_SECONDS\<rparr>)
               ((pay_bid u k amt s)\<lparr>auction_bids := auction_bids s @
                  [\<lparr>auction_id = k, bidder_id = u, amount = amt, bid_iso = t_bid\<rparr>]\<rparr>)"
    by blast
  have pay: "auctions (pay_bid u k amt s) = auctions s"
    "user_waifus (pay_bid u k amt s) = user_waifus s"
    by (simp_all add: pay_bid_def split: option.splits)
  have "user_waifus ?s' = user_waifus s" by (simp add: s' pay)
  then have h: "sum (units ?s' w) U = sum (units s w) U" by (rule holdings_same)
  have "map (in_flight_of w) (auctions ?s') = map (in_flight_of w) (auctions s)"
    by (simp add: s' pay in_flight_of_def)
  then have "in_flight ?s' w = in_flight s w" by (simp only: in_flight_def)
  then show ?thesis using h by (simp add: copies_def)
qed

lemma apply_op_items:
  assumes "consistent U s" and "known_user U x" and "creatable s x"
  shows "copies U (apply_op x s) w = copies U s w"
proof (cases x)
  case (CreateAuction t0 now u v p)
  have c: "consistent U (finalize_expired_auctions t0 s)"
    using sweep_funds [OF assms(1)] by simp
  have "copies U (snd (create_auction now u v p (finalize_expired_auctions t0 s))) w =
      copies U (finalize_expired_auctions t0 s) w"
    using assms(2,3) CreateAuction by (intro create_auction_items [OF c]) simp_all
  then show ?thesis using CreateAuction sweep_items [OF assms(1)]
    by (simp add: auction_handler_def finalize_expired_auctions_sync_def)
next
  case (PlaceBid t0 t_chk t_fin t_bid t_end u k amt)
  have c: "consistent U (finalize_expired_auctions t0 s)"
    using sweep_funds [OF assms(1)] by simp
  show ?thesis using PlaceBid place_bid_items [OF c] sweep_items [OF assms(1)]
    by (simp add: bid_handler_def finalize_expired_auctions_sync_def)
next
  case (FinalizeExpired now)
  then show ?thesis using sweep_items [OF assms(1)] by simp
next
  case (ManualClaim k)
  then show ?thesis using assms(1) by (simp add: manual_funds)
next
  case (ManualCredit k)
  then show ?thesis using assms(1) by (simp add: manual_funds)
qed

lemma run_cards [simp]: "waifu_cards (run xs s) = waifu_cards s"
  by (induction xs arbitrary: s) simp_all

lemma creatable_cong: "waifu_cards s' = waifu_cards s \<Longrightarrow> creatable s' = creatable s"
proof
  fix x assume "waifu_cards s' = waifu_cards s"
  then show "creatable s' x = creatable s x" by (cases x) simp_all
qed

section \<open>Settlement and its retry (claim C1)\<close>

lemma db_led_expired: "expired_ids 20000000 db_led = [1]"
  by (simp add: expired_ids_def db_led_def)

text \<open>
  Settlement that has completed is idempotent. A second run of
  \<open>finalize_expired_auctions\<close> at the same instant changes nothing, and no later sweep
  selects an auction that a sweep has settled; on an auction the sweep settled, the manual
  claim and the manual credit change nothing; and each manual operation run twice leaves
  what it left the first time.
\<close>

lemma settlement_idempotent:
  "finalize_expired_auctions now (finalize_expired_auctions now s) =
     finalize_expired_auctions now s \<and>
   (k \<in> set (expired_ids now s) \<longrightarrow>
      k \<notin> set (expired_ids later (finalize_expired_auctions now s)) \<and>
      snd (auction_claim_cb k (finalize_expired_auctions now s)) =
        finalize_expired_auctions now s \<and>
      snd (auction_credit_cb k (finalize_expired_auctions now s)) =
        finalize_expired_auctions now s) \<and>
   snd (auction_claim_cb j (snd (auction_claim_cb j s))) = snd (auction_claim_cb j s) \<and>
   snd (auction_credit_cb j (snd (auction_credit_cb j s))) = snd (auction_credit_cb j s)"
proof -
  have "k \<notin> set (expired_ids later (finalize_expired_auctions now s)) \<and>
        snd (auction_claim_cb k (finalize_expired_auctions now s)) =
          finalize_expired_auctions now s \<and>
        snd (auction_credit_cb k (finalize_expired_auctions now s)) =
          finalize_expired_auctions now s"
    if "k \<in> set (expired_ids now s)"
  proof -
    from swept_row [OF that] obtain b where
      "fetch_auction (finalize_expired_auctions now s) k = Some b" "transferred b" by blast
    then show ?thesis using settled_not_selected [OF that]
      by (simp add: claim_noop credit_noop)
  qed
  then show ?thesis by (simp add: sweep_twice claim_twice credit_twice)
qed

lemma settlement_idempotent_witness:
  "1 \<in> set (expired_ids 20000000 db_led) \<and>
   1 \<notin> set (expired_ids 90000000 (finalize_expired_auctions 20000000 db_led)) \<and>
   finalize_expired_auctions 20000000 (finalize_expired_auctions 20000000 db_led) =
     finalize_expired_auctions 20000000 db_led \<and>
   snd (auction_claim_cb 1 (finalize_expired_auctions 20000000 db_led)) =
     finalize_expired_auctions 20000000 db_led \<and>
   snd (auction_credit_cb 1 (finalize_expired_auctions 20000000 db_led)) =
     finalize_expired_auctions 20000000 db_led \<and>
   crystals (finalize_expired_auctions 20000000 db_led) 1 = 60 \<and>
   user_waifus (finalize_expired_auctions 20000000 db_led) (2, 7) = Some 1"
proof -
  have h: "1 \<in> set (expired_ids 20000000 db_led)"
    by (simp add: db_led_expired)
  have "crystals (finalize_expired_auctions 20000000 db_led) 1 = 60"
    "user_waifus (finalize_expired_auctions 20000000 db_led) (2, 7) = Some 1"
    by code_simp+
  then show ?thesis
    using h settlement_idempotent [of 20000000 db_led 1 90000000 1] by simp
qed

text \<open>
  C1 fails on the code in its second half, the retry after one effect only. The sweep
  tests the flag \<open>transferred\<close> before the grant (lines 132-136, "Ensure winner has the
  card (idempotent)") and before the credit (lines 141-146, "credit seller if not already
  credited"), but writes it only at line 150, after both, so the tests cannot see an
  effect that was applied alone. In \<open>db_led\<close> user 2 leads auction 1 with 60, and a
  complete settlement leaves the winner one copy of card 7 and the seller 60 crystals.
  When only the grant has been applied, the retry grants again (two copies); when only the
  credit has been applied, the retry credits again (120 crystals); and the manual credit
  does nothing for the half-settled auction, which is not finished.
\<close>

theorem retry_repeats_applied_half:
  "user_waifus (finalize_expired_auctions 20000000 db_led) (2, 7) = Some 1 \<and>
   user_waifus (finalize_expired_auctions 20000000 (grant_winner 1 2 7 db_led)) (2, 7) = Some 2 \<and>
   crystals (finalize_expired_auctions 20000000 db_led) 1 = 60 \<and>
   crystals (finalize_expired_auctions 20000000 (credit_seller 1 1 60 db_led)) 1 = 120 \<and>
   fst (auction_credit_cb 1 (grant_winner 1 2 7 db_led)) = NotFinished \<and>
   crystals (snd (auction_credit_cb 1 (grant_winner 1 2 7 db_led))) 1 = 0"
  by code_simp

section \<open>Conservation of funds (claim C2)\<close>

text \<open>
  C2. From a consistent database, every sequence of engine operations by users of \<open>U\<close>
  leaves the sum of the wallets of \<open>U\<close> and of the leading bids of the active auctions
  unchanged.
\<close>

theorem funds_conserved:
  assumes "consistent U s" and "list_all (known_user U) xs"
  shows "total_funds U (run xs s) = total_funds U s"
  using assms
proof (induction xs arbitrary: s)
  case Nil
  then show ?case by simp
next
  case (Cons x xs)
  then have "consistent U (apply_op x s)" "total_funds U (apply_op x s) = total_funds U s"
    using apply_op_funds [of U s x] by simp_all
  then show ?case using Cons by simp
qed

theorem funds_conserved_witness:
  "consistent {1, 2, 3} db_start \<and> list_all (known_user {1, 2, 3}) sample_run \<and>
   total_funds {1, 2, 3} db_start = 300 \<and>
   total_funds {1, 2, 3} (run sample_run db_start) = 300 \<and>
   crystals (run sample_run db_start) 1 = 90 \<and>
   crystals (run sample_run db_start) 2 = 10 \<and>
   crystals (run sample_run db_start) 3 = 200 \<and>
   escrow (run (take 3 sample_run) db_start) = 70"
proof -
  have c: "consistent {1, 2, 3} db_start"
    by (simp add: consistent_def db_start_def)
  have k: "list_all (known_user {1, 2, 3}) sample_run"
    by (simp add: sample_run_def)
  have t: "total_funds {1, 2, 3} db_start = 300"
    by (simp add: total_funds_def wallets_def escrow_def db_start_def)
  have e: "crystals (run sample_run db_start) 1 = 90"
    "crystals (run sample_run db_start) 2 = 10"
    "crystals (run sample_run db_start) 3 = 200"
    "escrow (run (take 3 sample_run) db_start) = 70"
    by code_simp+
  from funds_conserved [OF c k] show ?thesis using c k t e by simp
qed

section \<open>Conservation of items (claim C3)\<close>

text \<open>
  Along every sequence of operations in which each creation names a card that has a row
  in \<open>waifu_cards\<close> and a minimum price that fits SQLite's INTEGER, the copies of a card
  held by the users and in flight stay the same number: creation takes one copy from the
  seller into flight, and settlement hands it to the winner, or back to the seller when
  nobody bid.
\<close>

lemma items_conserved:
  assumes "consistent U s" and "list_all (known_user U) xs" and "list_all (creatable s) xs"
  shows "copies U (run xs s) w = copies U s w"
  using assms
proof (induction xs arbitrary: s)
  case Nil
  then show ?case by simp
next
  case (Cons x xs)
  have c: "consistent U (apply_op x s)"
    using apply_op_funds [of U s x] Cons.prems by simp
  have "list_all (creatable (apply_op x s)) xs"
    using Cons.prems(3) by (simp add: creatable_cong [of "apply_op x s" s])
  then have "copies U (run xs (apply_op x s)) w = copies U (apply_op x s) w"
    using Cons.IH [OF c] Cons.prems(2) by simp
  then show ?case using apply_op_items [of U s x w] Cons.prems by simp
qed

lemma items_conserved_witness:
  "consistent {1, 2, 3} db_start \<and> list_all (known_user {1, 2, 3}) sample_run \<and>
   list_all (creatable db_start) sample_run \<and>
   copies {1, 2, 3} db_start 7 = 2 \<and>
   copies {1, 2, 3} (run sample_run db_start) 7 = 2 \<and>
   units (run sample_run db_start) 7 1 = 1 \<and> units (run sample_run db_start) 7 2 = 1 \<and>
   in_flight (run (take 3 sample_run) db_start) 7 = 1"
proof -
  have c: "consistent {1, 2, 3} db_start"
    by (simp add: consistent_def db_start_def)
  have k: "list_all (known_user {1, 2, 3}) sample_run"
    by (simp add: sample_run_def)
  have g: "list_all (creatable db_start) sample_run"
    by (simp add: sample_run_def db_start_def sqlite_int_def)
  have e: "copies {1, 2, 3} db_start 7 = 2"
    "units (run sample_run db_start) 7 1 = 1" "units (run sample_run db_start) 7 2 = 1"
    "in_flight (run (take 3 sample_run) db_start) 7 = 1"
    by code_simp+
  from items_conserved [OF c k g, of 7] show ?thesis using c k g e by simp
qed

text \<open>
  C3 fails on the code where creation fails after the reservation. User 4 holds the only
  copy of card 9, which has no row in \<open>waifu_cards\<close>. \<open>/auction 9 100\<close> deletes the
  inventory row and commits (lines 194-200), finds no card (line 206), and the statement
  that would return the copy (line 208) does not parse: the copy is in no inventory and in
  no auction.
\<close>

theorem failed_creation_loses_copy:
  "copies {1, 4} db_start 9 = 1 \<and>
   copies {1, 4} (apply_op (CreateAuction 0 0 4 9 100) db_start) 9 = 0 \<and>
   in_flight (apply_op (CreateAuction 0 0 4 9 100) db_start) 9 = 0"
  by code_simp

section \<open>Creation is not undone on failure (claim C4)\<close>

text \<open>
  C4 holds for a seller who does not own the card, and fails where the card has no row in
  \<open>waifu_cards\<close>: the rollback statement of line 208 has one closing parenthesis too
  many, so \<open>execute\<close> raises, nothing is returned, and the reservation committed at
  line 200 stays.
\<close>

theorem rollback_statement_malformed:
  "\<not> parens_match rollback_sql \<and>
   fst (create_auction 0 4 9 100 db_start) = Raised OperationalError \<and>
   user_waifus db_start (4, 9) = Some 1 \<and>
   user_waifus (snd (create_auction 0 4 9 100 db_start)) (4, 9) = None \<and>
   auctions (snd (create_auction 0 4 9 100 db_start)) = [] \<and>
   fst (create_auction 0 5 7 100 db_start) = NotOwned"
  by code_simp

text \<open>
  The insert of line 218 has no rollback at all. A minimum price that does not fit SQLite's
  INTEGER makes it raise \<open>OverflowError\<close> after the reservation was committed: user 1, who
  held two copies of card 7, is left with one, and there is no auction.
\<close>

lemma insert_overflow_loses_copy:
  "fst (create_auction 0 1 7 (2 ^ 63) db_start) = Raised OverflowError \<and>
   user_waifus db_start (1, 7) = Some 2 \<and>
   user_waifus (snd (create_auction 0 1 7 (2 ^ 63) db_start)) (1, 7) = Some 1 \<and>
   auctions (snd (create_auction 0 1 7 (2 ^ 63) db_start)) = []"
  by code_simp

section \<open>The acceptance threshold (claim C5)\<close>

text \<open>
  C5, as the code has it. On an active auction that has not ended, a bid is accepted
  exactly when the bidder can afford it and it is above the leading bid (at least the
  minimum price when there is no bid); a bid the bidder can afford and that is below the
  threshold is rejected, with the leading amount (or the minimum price) in the message, and
  changes nothing; a bid the bidder cannot afford is rejected for lack of crystals, below
  the threshold or not, and changes nothing; and through every sequence of operations the
  amounts bid on an auction stay strictly increasing in insertion order.
\<close>

theorem bid_threshold:
  assumes "fetch_auction s k = Some a" and "status a = Active" and "t_chk < end_iso a"
  shows "(fst (place_bid t_chk t_fin t_bid t_end u k amt s) = BidPlaced \<longleftrightarrow>
            amt \<le> available_funds s u k \<and> bid_floor_met s a amt) \<and>
         (amt \<le> available_funds s u k \<and> \<not> bid_floor_met s a amt \<longrightarrow>
            place_bid t_chk t_fin t_bid t_end u k amt s = (BidTooLow (bid_floor s a), s)) \<and>
         (available_funds s u k < amt \<longrightarrow>
            place_bid t_chk t_fin t_bid t_end u k amt s = (NotEnoughCrystals, s)) \<and>
         (sorted_wrt (<) (amounts_of s j) \<longrightarrow> sorted_wrt (<) (amounts_of (run xs s) j))"
proof -
  have "place_bid t_chk t_fin t_bid t_end u k amt s = (NotEnoughCrystals, s)"
    if "available_funds s u k < amt"
    using that assms
    by (auto simp: place_bid_def available_funds_def leading_def get_crystals_def Let_def
        split: option.splits)
  moreover
  have "place_bid t_chk t_fin t_bid t_end u k amt s = (BidTooLow (bid_floor s a), s)"
    if "amt \<le> available_funds s u k" "\<not> bid_floor_met s a amt"
    using that assms fetch_SomeD [OF assms(1)]
    by (auto simp: place_bid_def Let_def available_funds_def bid_floor_met_def bid_floor_def
        leading_def get_crystals_def split: option.splits)
  ultimately show ?thesis
    using place_bid_accepted_iff [OF assms] by (simp add: run_increasing)
qed

theorem bid_threshold_witness:
  "map_option status (fetch_auction db_led 1) = Some Active \<and>
   available_funds db_led 3 1 = 200 \<and>
   fst (place_bid 2000000 2000000 2000000 2000000 3 1 55 db_led) = BidTooLow 60 \<and>
   fst (place_bid 2000000 2000000 2000000 2000000 3 1 70 db_led) = BidPlaced \<and>
   available_funds db_led 6 1 = 0 \<and>
   fst (place_bid 2000000 2000000 2000000 2000000 6 1 55 db_led) = NotEnoughCrystals \<and>
   amounts_of db_start 1 = [] \<and>
   amounts_of (run sample_run db_start) 1 = [60, 70, 90] \<and>
   sorted_wrt (<) (amounts_of (run sample_run db_start) 1)"
proof -
  have f: "fetch_auction db_led 1 = Some (hd (auctions db_led))"
    by (simp add: fetch_auction_def db_led_def)
  have a: "status (hd (auctions db_led)) = Active" "2000000 < end_iso (hd (auctions db_led))"
    by (simp_all add: db_led_def)
  have l: "leading db_led 1 =
      Some \<lparr>auction_id = 1, bidder_id = 2, amount = 60, bid_iso = 1000000\<rparr>"
    by (simp add: leading_def top_bid_def db_led_def)
  have i: "id' (hd (auctions db_led)) = 1" by (simp add: db_led_def)
  have v: "available_funds db_led 3 1 = 200" "available_funds db_led 6 1 = 0"
    by (simp_all add: available_funds_def l) (simp_all add: db_led_def)
  have m: "\<not> bid_floor_met db_led (hd (auctions db_led)) 55"
    "bid_floor_met db_led (hd (auctions db_led)) 70"
    "bid_floor db_led (hd (auctions db_led)) = 60"
    by (simp_all add: bid_floor_met_def bid_floor_def i l)
  have n: "amounts_of db_start 1 = []" by (simp add: amounts_of_def db_start_def)
  have r: "amounts_of (run sample_run db_start) 1 = [60, 70, 90]" by code_simp
  show ?thesis
    using bid_threshold [OF f a, of 2000000 2000000 2000000 3 55 1 sample_run]
      bid_threshold [OF f a, of 2000000 2000000 2000000 3 70 1 sample_run]
      bid_threshold [OF f a, of 2000000 2000000 2000000 6 55 1 sample_run]
    by (simp add: f a v m n r)
qed

text \<open>
  C5 as stated fails for a bid that is below the threshold and that the bidder cannot
  afford: user 6 has no crystals and offers 55 against a leading bid of 60, and is told
  that the crystals do not suffice, not what the amount to beat is.
\<close>

theorem low_bid_without_funds:
  "map_option amount (leading db_led 1) = Some 60 \<and>
   available_funds db_led 6 1 = 0 \<and>
   fst (place_bid 2000000 2000000 2000000 2000000 6 1 55 db_led) = NotEnoughCrystals"
  by code_simp

section \<open>Funds moved by an accepted bid (claim C6)\<close>

text \<open>
  C6. An accepted bid by the leading bidder was checked against the balance plus the
  standing bid and debits the difference only. An accepted bid by anyone else was checked
  against the balance, debits the full amount, and credits the previous leading bidder, when
  there is one, with exactly that bidder's amount. (A previous bidder with id 0 would not
  be refunded, line 329; no Telegram user has that id.)
\<close>

theorem bid_moves_funds:
  assumes "place_bid t_chk t_fin t_bid t_end u k amt s = (BidPlaced, s')"
    and "leader s k \<noteq> Some 0"
  shows "case leading s k of
           Some c \<Rightarrow>
             if bidder_id c = u
             then amt - amount c \<le> crystals s u \<and>
                  crystals s' = (crystals s)(u := crystals s u - (amt - amount c))
             else amt \<le> crystals s u \<and>
                  crystals s' = (crystals s)(u := crystals s u - amt,
                                            bidder_id c := crystals s (bidder_id c) + amount c)
         | None \<Rightarrow>
             amt \<le> crystals s u \<and> crystals s' = (crystals s)(u := crystals s u - amt)"
  using assms
  by (auto simp: place_bid_def leader_def leading_def get_crystals_def Let_def
      split: option.splits if_splits)

theorem bid_moves_funds_witness:
  "leader db_led 1 = Some 2 \<and> map_option amount (leading db_led 1) = Some 60 \<and>
   fst (place_bid 2000000 2000000 2000000 2000000 3 1 70 db_led) = BidPlaced \<and>
   crystals db_led 3 = 200 \<and> crystals db_led 2 = 40 \<and>
   crystals (snd (place_bid 2000000 2000000 2000000 2000000 3 1 70 db_led)) 3 = 130 \<and>
   crystals (snd (place_bid 2000000 2000000 2000000 2000000 3 1 70 db_led)) 2 = 100 \<and>
   fst (place_bid 2000000 2000000 2000000 2000000 2 1 90 db_led) = BidPlaced \<and>
   crystals (snd (place_bid 2000000 2000000 2000000 2000000 2 1 90 db_led)) 2 = 10"
proof -
  have l: "leading db_led 1 = Some \<lparr>auction_id = 1, bidder_id = 2, amount = 60, bid_iso = 1000000\<rparr>"
    by (simp add: leading_def top_bid_def db_led_def)
  have h: "leader db_led 1 \<noteq> Some 0" by (simp add: leader_def l)
  have c: "crystals db_led 3 = 200" "crystals db_led 2 = 40" by (simp_all add: db_led_def)
  have r: "fst (place_bid 2000000 2000000 2000000 2000000 3 1 70 db_led) = BidPlaced"
    "fst (place_bid 2000000 2000000 2000000 2000000 2 1 90 db_led) = BidPlaced"
    by code_simp+
  have p: "place_bid 2000000 2000000 2000000 2000000 3 1 70 db_led =
      (BidPlaced, snd (place_bid 2000000 2000000 2000000 2000000 3 1 70 db_led))"
    "place_bid 2000000 2000000 2000000 2000000 2 1 90 db_led =
      (BidPlaced, snd (place_bid 2000000 2000000 2000000 2000000 2 1 90 db_led))"
    using r by (simp_all add: prod_eq_iff)
  show ?thesis
    using bid_moves_funds [OF p(1) h] bid_moves_funds [OF p(2) h] r
    by (simp add: l c leader_def)
qed

section \<open>The countdown restarts on every bid (claim C7)\<close>

text \<open>
  C7. An accepted bid sets the end time of its auction to the clock reading of line 341
  plus \<open>BID_TIMEOUT_SECONDS\<close>, the window \<open>auction_handler\<close> uses at creation. In a
  history that began without auctions and whose operations all read the clock at or before
  \<open>t_prev\<close>, a bid that reads the clock of line 341 after \<open>t_prev\<close> makes the end time
  strictly later than it was, however early in the window the bid comes.
\<close>

theorem bid_resets_countdown:
  assumes "auctions s0 = []" and "list_all (read_by t_prev) xs" and "t_prev < t_end"
    and "bid_handler t0 t_chk t_fin t_bid t_end u k amt (run xs s0) = (BidPlaced, s')"
  shows "end_of s' k = Some (t_end + timedelta BID_TIMEOUT_SECONDS) \<and>
         (\<exists>e. end_of (run xs s0) k = Some e \<and> e < t_end + timedelta BID_TIMEOUT_SECONDS)"
proof -
  let ?s = "run xs s0"
  have "ends_within t_prev s0" using assms(1) by (simp add: ends_within_def)
  then have w: "ends_within t_prev ?s" using assms(2) by (rule run_ends_within)
  from assms(4) have p: "place_bid t_chk t_fin t_bid t_end u k amt
      (finalize_expired_auctions t0 ?s) = (BidPlaced, s')"
    by (simp add: bid_handler_def finalize_expired_auctions_sync_def)
  from place_bid_end [OF p] obtain a where
    e': "end_of s' k = Some (t_end + timedelta BID_TIMEOUT_SECONDS)"
    and "fetch_auction (finalize_expired_auctions t0 ?s) k = Some a" by blast
  then have "end_of (finalize_expired_auctions t0 ?s) k = Some (end_iso a)"
    by (simp add: end_of_def)
  then have "end_of ?s k = Some (end_iso a)" by (simp add: sweep_end_of)
  then obtain b where b: "fetch_auction ?s k = Some b" "end_iso b = end_iso a"
    by (auto simp: end_of_def)
  have "end_iso b \<le> t_prev + timedelta BID_TIMEOUT_SECONDS"
    using w fetch_SomeD [OF b(1)] by (auto simp: ends_within_def list_all_iff)
  then show ?thesis using e' b assms(3) by (simp add: end_of_def)
qed

theorem bid_resets_countdown_witness:
  "auctions db_start = [] \<and> list_all (read_by 2000000) (take 3 sample_run) \<and>
   end_of (run (take 3 sample_run) db_start) 1 = Some 12000000 \<and>
   fst (bid_handler 3000000 3000000 3000000 3000000 3000000 2 1 90
          (run (take 3 sample_run) db_start)) = BidPlaced \<and>
   end_of (snd (bid_handler 3000000 3000000 3000000 3000000 3000000 2 1 90
                  (run (take 3 sample_run) db_start))) 1 = Some 13000000"
proof -
  have a: "auctions db_start = []" by (simp add: db_start_def)
  have c: "list_all (read_by 2000000) (take 3 sample_run)" by (simp add: sample_run_def)
  have e: "end_of (run (take 3 sample_run) db_start) 1 = Some 12000000" by code_simp
  have r: "fst (bid_handler 3000000 3000000 3000000 3000000 3000000 2 1 90
          (run (take 3 sample_run) db_start)) = BidPlaced"
    by code_simp
  then have p: "bid_handler 3000000 3000000 3000000 3000000 3000000 2 1 90
          (run (take 3 sample_run) db_start) =
      (BidPlaced, snd (bid_handler 3000000 3000000 3000000 3000000 3000000 2 1 90
          (run (take 3 sample_run) db_start)))"
    by (simp add: prod_eq_iff)
  have "(2000000 :: int) < 3000000" by simp
  from bid_resets_countdown [OF a c this p]
  show ?thesis using a c e r by (simp add: timedelta_def BID_TIMEOUT_SECONDS_def)
qed

section \<open>Late bids (claim C8)\<close>

text \<open>
  C8, as the code has it. A bid on an auction whose end time has passed is rejected
  whatever the amount, and inserts no bid row. On an active auction the answer is that the
  auction has just ended and the handler runs the settlement sweep (line 283); on a
  finished one the answer is that it is not active and nothing changes. The whole handler,
  with its opening sweep, answers one of the two, and leaves the database as the sweeps
  leave it.
\<close>

theorem late_bid_rejected:
  assumes "fetch_auction s k = Some a" and "end_iso a \<le> t_chk"
  shows "(if status a = Active
          then place_bid t_chk t_fin t_bid t_end u k amt s =
                 (AuctionEnded, finalize_expired_auctions_sync t_fin s)
          else place_bid t_chk t_fin t_bid t_end u k amt s = (NotActive, s)) \<and>
         auction_bids (snd (place_bid t_chk t_fin t_bid t_end u k amt s)) = auction_bids s \<and>
         (bid_handler t0 t_chk t_fin t_bid t_end u k amt s =
            (NotActive, finalize_expired_auctions_sync t0 s) \<or>
          bid_handler t0 t_chk t_fin t_bid t_end u k amt s =
            (AuctionEnded,
             finalize_expired_auctions_sync t_fin (finalize_expired_auctions_sync t0 s))) \<and>
         auction_bids (snd (bid_handler t0 t_chk t_fin t_bid t_end u k amt s)) = auction_bids s"
proof -
  from sweep_fetch [of t0 s k] assms(1) obtain b where
    b: "fetch_auction (finalize_expired_auctions t0 s) k = Some b"
    and "settled_from (set (expired_ids t0 s)) a b"
    by (auto simp: option_rel_Some1)
  then have "end_iso b \<le> t_chk" using assms(2) by (simp add: settled_from_def)
  then have h: "bid_handler t0 t_chk t_fin t_bid t_end u k amt s =
            (NotActive, finalize_expired_auctions_sync t0 s) \<or>
          bid_handler t0 t_chk t_fin t_bid t_end u k amt s =
            (AuctionEnded,
             finalize_expired_auctions_sync t_fin (finalize_expired_auctions_sync t0 s))"
    using b by (simp add: bid_handler_def place_bid_def finalize_expired_auctions_sync_def)
  then have "auction_bids (snd (bid_handler t0 t_chk t_fin t_bid t_end u k amt s)) =
      auction_bids s"
    by (auto simp: finalize_expired_auctions_sync_def)
  moreover have p: "if status a = Active
          then place_bid t_chk t_fin t_bid t_end u k amt s =
                 (AuctionEnded, finalize_expired_auctions_sync t_fin s)
          else place_bid t_chk t_fin t_bid t_end u k amt s = (NotActive, s)"
    using assms by (simp add: place_bid_def)
  moreover have "auction_bids (snd (place_bid t_chk t_fin t_bid t_end u k amt s)) =
      auction_bids s"
    using p by (auto simp: finalize_expired_auctions_sync_def split: if_splits)
  ultimately show ?thesis using h by simp
qed

theorem late_bid_rejected_witness:
  "map_option status (fetch_auction db_led 1) = Some Active \<and>
   map_option end_iso (fetch_auction db_led 1) = Some 11000000 \<and>
   place_bid 20000000 20000000 20000000 20000000 3 1 70 db_led =
     (AuctionEnded, finalize_expired_auctions_sync 20000000 db_led) \<and>
   auction_bids (snd (place_bid 20000000 20000000 20000000 20000000 3 1 70 db_led)) =
     auction_bids db_led"
proof -
  have f: "fetch_auction db_led 1 = Some (hd (auctions db_led))"
    by (simp add: fetch_auction_def db_led_def)
  have a: "status (hd (auctions db_led)) = Active" "end_iso (hd (auctions db_led)) = 11000000"
    by (simp_all add: db_led_def)
  have "end_iso (hd (auctions db_led)) \<le> 20000000" by (simp add: a)
  from late_bid_rejected [OF f this, of 20000000 20000000 20000000 3 70 20000000]
  show ?thesis by (simp add: f a finalize_expired_auctions_sync_def)
qed

text \<open>
  C8 as stated fails in "no funds move": the late bid of user 3 on auction 1, which user 2
  leads with 60, makes the handler settle the auction, and the seller (user 1) is credited
  60 during the call.
\<close>

theorem late_bid_settles_auction:
  "fst (place_bid 20000000 20000000 20000000 20000000 3 1 70 db_led) = AuctionEnded \<and>
   crystals db_led 1 = 0 \<and>
   crystals (snd (place_bid 20000000 20000000 20000000 20000000 3 1 70 db_led)) 1 = 60 \<and>
   crystals (snd (bid_handler 20000000 20000000 20000000 20000000 20000000 3 1 70 db_led)) 1 = 60 \<and>
   fst (bid_handler 20000000 20000000 20000000 20000000 20000000 3 1 70 db_led) = NotActive"
  by code_simp

section \<open>The row of a new auction (claim C9)\<close>

text \<open>
  C9, as the code has it. A successful creation appends one row with a fresh id, which
  the caller is told; the row is active, not transferred, without winner or price, starts
  at the clock reading of line 216 and ends \<open>BID_TIMEOUT_SECONDS\<close> later; no balance and
  no bid changes.
\<close>

theorem create_auction_row:
  assumes "create_auction now u w p s = (Started k, s')"
  shows "\<exists>c. waifu_cards s w = Some c \<and>
           auctions s' = auctions s @
             [\<lparr>id' = k, waifu_id = w, seller_id = u, start_iso = now,
               end_iso = now + timedelta BID_TIMEOUT_SECONDS, min_price = p, status = Active,
               winner_id = None, final_price = None, transferred = False, snapshot = c\<rparr>] \<and>
           k \<notin> id' ` set (auctions s) \<and>
           crystals s' = crystals s \<and> auction_bids s' = auction_bids s"
  using assms
  by (auto simp: create_auction_def Let_def rollback_reserve_def
      split: option.splits if_splits sum.splits dest: next_id_above)

theorem create_auction_row_witness:
  "fst (create_auction 0 1 7 50 db_start) = Started 1 \<and>
   auctions (snd (create_auction 0 1 7 50 db_start)) = auctions db_open \<and>
   crystals (snd (create_auction 0 1 7 50 db_start)) = crystals db_start"
proof -
  have r: "fst (create_auction 0 1 7 50 db_start) = Started 1" by code_simp
  then have p: "create_auction 0 1 7 50 db_start = (Started 1, snd (create_auction 0 1 7 50 db_start))"
    by (simp add: prod_eq_iff)
  have "waifu_cards db_start 7 = Some card7" "auctions db_start = []"
    by (simp_all add: db_start_def)
  with create_auction_row [OF p] r show ?thesis
    by (simp add: db_open_def timedelta_def BID_TIMEOUT_SECONDS_def)
qed

text \<open>
  C9 as stated fails in \<open>endTime = now + duration\<close>: the handler takes no duration. An
  auction created at instant 0 ends ten seconds later, where a caller asking for an hour
  would be promised 3600 seconds.
\<close>

theorem creation_ignores_duration:
  "end_of (snd (create_auction 0 1 7 50 db_start)) 1 = Some 10000000 \<and>
   spec_endTime 0 3600 = 3600000000 \<and>
   end_of (snd (create_auction 0 1 7 50 db_start)) 1 \<noteq> Some (spec_endTime 0 3600)"
  by code_simp

section \<open>The order of the checks in \<open>bid_handler\<close> (claim C10)\<close>

text \<open>
  C10. On an active auction that has not ended, a bid the bidder cannot afford is answered
  "not enough crystals" and changes nothing, whatever the amount is next to the leading
  bid or the minimum price: the funds check (line 303) comes before the threshold check
  (lines 306-312).
\<close>

theorem funds_checked_before_threshold:
  assumes "fetch_auction s k = Some a" and "status a = Active" and "t_chk < end_iso a"
    and "available_funds s u k < amt"
  shows "place_bid t_chk t_fin t_bid t_end u k amt s = (NotEnoughCrystals, s)"
  using assms
  by (auto simp: place_bid_def available_funds_def leading_def get_crystals_def Let_def
      split: option.splits)

theorem funds_checked_before_threshold_witness:
  "map_option status (fetch_auction db_open 1) = Some Active \<and>
   map_option min_price (fetch_auction db_open 1) = Some 50 \<and>
   leading db_open 1 = None \<and>
   available_funds db_open 5 1 = 0 \<and>
   fst (place_bid 2000000 2000000 2000000 2000000 5 1 40 db_open) = NotEnoughCrystals"
proof -
  have f: "fetch_auction db_open 1 = Some (hd (auctions db_open))"
    by (simp add: fetch_auction_def db_open_def)
  have a: "status (hd (auctions db_open)) = Active" "2000000 < end_iso (hd (auctions db_open))"
    "min_price (hd (auctions db_open)) = 50"
    by (simp_all add: db_open_def)
  have l: "leading db_open 1 = None"
    by (simp add: leading_def top_bid_def db_open_def)
  have v: "available_funds db_open 5 1 = 0"
    by (simp add: available_funds_def l) (simp add: db_open_def)
  have "available_funds db_open 5 1 < 40" by (simp add: v)
  from funds_checked_before_threshold [OF f a(1) a(2) this]
  show ?thesis by (simp add: f a l v)
qed

end
